theory Spec2Isabelle
  imports Main "HOL-Library.Sublist"
begin

section \<open>Python values\<close>

text \<open>
  The decoded payloads of \<^verbatim>\<open>response.json()\<close> are Python values: \<^verbatim>\<open>None\<close>, booleans,
  integers, floats, strings, lists and dictionaries with string keys. \<open>PNone\<close> is
  Python's \<^verbatim>\<open>None\<close>: the decoded JSON \<^verbatim>\<open>null\<close> and the "no data" sentinel are the same
  value, as in the source. A dictionary is an association list in insertion order; a
  decoded dictionary has distinct keys, and \<open>map_of\<close> reads it.

  A finite float is \<open>Finite m e\<close>, the number \<open>m * 2 ^ e\<close> (every finite double has this
  form); the other floats are the negative zero, the infinities and NaN.
\<close>

datatype pyfloat = Finite int int | NegZero | PosInf | NegInf | NaN

datatype pyval =
    PNone
  | PBool bool
  | PInt int
  | PFloat pyfloat
  | PStr string
  | PList "pyval list"
  | PDict "(string \<times> pyval) list"

text \<open>
  Exceptions of class \<^verbatim>\<open>Exception\<close>, the ones an \<^verbatim>\<open>except Exception\<close> clause catches;
  \<open>OtherException\<close> carries \<^verbatim>\<open>str(e)\<close>. The cancellation of a task is not modelled.
\<close>

datatype py_exn = TimeoutError | TypeError | AttributeError | OtherException string

fun float_truthy :: "pyfloat \<Rightarrow> bool" where
  "float_truthy (Finite m e) = (m \<noteq> 0)"
| "float_truthy NegZero = False"
| "float_truthy PosInf = True"
| "float_truthy NegInf = True"
| "float_truthy NaN = True"

text \<open>Truth value of a Python value, as \<^verbatim>\<open>if x\<close>, \<^verbatim>\<open>not x\<close> and \<^verbatim>\<open>x or y\<close> test it.\<close>

fun truthy :: "pyval \<Rightarrow> bool" where
  "truthy PNone = False"
| "truthy (PBool b) = b"
| "truthy (PInt i) = (i \<noteq> 0)"
| "truthy (PFloat f) = float_truthy f"
| "truthy (PStr s) = (s \<noteq> [])"
| "truthy (PList xs) = (xs \<noteq> [])"
| "truthy (PDict kvs) = (kvs \<noteq> [])"

text \<open>\<^verbatim>\<open>a or b\<close>: the first operand when it is truthy, the second otherwise.\<close>

definition py_or :: "pyval \<Rightarrow> pyval \<Rightarrow> pyval" where
  "py_or a b = (if truthy a then a else b)"

fun float_eq_int :: "pyfloat \<Rightarrow> int \<Rightarrow> bool" where
  "float_eq_int (Finite m e) n =
     (if 0 \<le> e then m * 2 ^ nat e = n else m = n * 2 ^ nat (- e))"
| "float_eq_int NegZero n = (n = 0)"
| "float_eq_int PosInf n = False"
| "float_eq_int NegInf n = False"
| "float_eq_int NaN n = False"

text \<open>
  \<^verbatim>\<open>x == n\<close> for an integer \<open>n\<close> (the identifiers the command layer passes are
  \<^verbatim>\<open>int\<close>): numbers compare by value, \<^verbatim>\<open>True\<close> is 1 and \<^verbatim>\<open>False\<close> is 0, every other
  value is unequal.
\<close>

fun py_eq_int :: "pyval \<Rightarrow> int \<Rightarrow> bool" where
  "py_eq_int (PInt i) n = (i = n)"
| "py_eq_int (PBool b) n = ((if b then 1 else 0) = n)"
| "py_eq_int (PFloat f) n = float_eq_int f n"
| "py_eq_int PNone n = False"
| "py_eq_int (PStr s) n = False"
| "py_eq_int (PList xs) n = False"
| "py_eq_int (PDict kvs) n = False"

text \<open>\<^verbatim>\<open>d.get(k)\<close> and \<^verbatim>\<open>d.get(k, default)\<close> on a dictionary.\<close>

definition dict_get_default :: "(string \<times> pyval) list \<Rightarrow> string \<Rightarrow> pyval \<Rightarrow> pyval" where
  "dict_get_default kvs k d = (case map_of kvs k of None \<Rightarrow> d | Some v \<Rightarrow> v)"

definition dict_get :: "(string \<times> pyval) list \<Rightarrow> string \<Rightarrow> pyval" where
  "dict_get kvs k = dict_get_default kvs k PNone"

text \<open>\<^verbatim>\<open>x.get(k, default)\<close> on any value: only a dictionary has the method.\<close>

fun py_get :: "pyval \<Rightarrow> string \<Rightarrow> pyval \<Rightarrow> py_exn + pyval" where
  "py_get (PDict kvs) k d = Inr (dict_get_default kvs k d)"
| "py_get v k d = Inl AttributeError"

text \<open>\<^verbatim>\<open>k in s\<close> for strings: \<open>k\<close> occurs in \<open>s\<close> as a contiguous run.\<close>

fun is_substring :: "string \<Rightarrow> string \<Rightarrow> bool" where
  "is_substring k [] = (k = [])"
| "is_substring k (c # cs) = (prefix k (c # cs) \<or> is_substring k cs)"

text \<open>
  \<^verbatim>\<open>k in x\<close> for a string \<open>k\<close>: key membership in a dictionary, element membership in
  a list, substring test in a string, and \<^verbatim>\<open>TypeError\<close> on every other value.
\<close>

fun py_in :: "string \<Rightarrow> pyval \<Rightarrow> py_exn + bool" where
  "py_in k (PDict kvs) = Inr (map_of kvs k \<noteq> None)"
| "py_in k (PList xs) = Inr (PStr k \<in> set xs)"
| "py_in k (PStr s) = Inr (is_substring k s)"
| "py_in k v = Inl TypeError"

text \<open>\<^verbatim>\<open>x[k]\<close> for a string \<open>k\<close>, where \<^verbatim>\<open>k in x\<close> has held.\<close>

fun py_subscript :: "pyval \<Rightarrow> string \<Rightarrow> py_exn + pyval" where
  "py_subscript (PDict kvs) k =
     (case map_of kvs k of None \<Rightarrow> Inl (OtherException ''KeyError'') | Some v \<Rightarrow> Inr v)"
| "py_subscript v k = Inl TypeError"

text \<open>\<^verbatim>\<open>for item in x\<close>: the items a loop over \<open>x\<close> sees.\<close>

fun py_iter :: "pyval \<Rightarrow> py_exn + pyval list" where
  "py_iter (PList xs) = Inr xs"
| "py_iter (PDict kvs) = Inr (map (PStr \<circ> fst) kvs)"
| "py_iter (PStr s) = Inr (map (\<lambda>c. PStr [c]) s)"
| "py_iter v = Inl TypeError"

text \<open>\<^verbatim>\<open>len(x)\<close>.\<close>

fun py_len :: "pyval \<Rightarrow> py_exn + int" where
  "py_len (PList xs) = Inr (int (length xs))"
| "py_len (PDict kvs) = Inr (int (length kvs))"
| "py_len (PStr s) = Inr (int (length s))"
| "py_len v = Inl TypeError"

text \<open>\<^verbatim>\<open>str(n)\<close> for an integer: its decimal digits.\<close>

function str_nat :: "nat \<Rightarrow> string" where
  "str_nat n =
     (if n < 10 then [''0123456789'' ! n]
      else str_nat (n div 10) @ [''0123456789'' ! (n mod 10)])"
  by pat_completeness auto
termination
  by (relation "measure id") auto

definition str_int :: "int \<Rightarrow> string" where
  "str_int i = (if i < 0 then CHR ''-'' # str_nat (nat (- i)) else str_nat (nat i))"

section \<open>Query parameters\<close>

text \<open>
  A parameter mapping is a Python dictionary from strings to strings.
  \<^verbatim>\<open>params[k] = v\<close> replaces the value of an existing entry in place and appends a new
  entry otherwise.
\<close>

type_synonym params = "(string \<times> string) list"

fun dict_set :: "params \<Rightarrow> string \<Rightarrow> string \<Rightarrow> params" where
  "dict_set [] k v = [(k, v)]"
| "dict_set ((k', v') # ps) k v =
     (if k' = k then (k, v) # ps else (k', v') # dict_set ps k v)"

section \<open>Rate limiter\<close>

text \<open>
  Modelled from the spec: the module \<^verbatim>\<open>rate_limiter\<close> (class \<^verbatim>\<open>RateLimiter\<close>, imported by
  \<^verbatim>\<open>torn_api.py\<close>) is not among the sources. The specification asks for a gate with
  \<open>capacity\<close> tokens per rolling window of length \<open>window\<close>, whose \<^verbatim>\<open>acquire()\<close> suspends
  the caller until a token is available, takes it and returns, serving callers in
  arrival order. The model is the rolling-window reading: a token taken at time \<open>g\<close> is
  available again at time \<open>g + window\<close>. Time is counted in whole seconds. The limiter
  keeps the times of the acquisitions it has granted, newest first.
\<close>

record limiter =
  capacity :: int
  window :: nat
  grants :: "nat list"

text \<open>
  Modelled from the spec: \<^verbatim>\<open>RateLimiter(capacity, window)\<close>, a limiter that has granted
  nothing yet.
\<close>

definition RateLimiter :: "int \<Rightarrow> nat \<Rightarrow> limiter" where
  "RateLimiter c w = \<lparr>capacity = c, window = w, grants = []\<rparr>"

text \<open>
  Modelled from the spec: the tokens available at time \<open>t\<close>, the capacity less the tokens
  taken and not yet back.
\<close>

definition tokens :: "limiter \<Rightarrow> nat \<Rightarrow> int" where
  "tokens l t = capacity l - int (length (filter (\<lambda>g. t < g + window l) (grants l)))"

text \<open>
  Modelled from the spec: \<open>acquire now l\<close> is a call of \<^verbatim>\<open>acquire()\<close> arriving at time
  \<open>now\<close>. It returns the time at which the caller resumes with its token, and the
  limiter after it: not before \<open>now\<close>, not before an earlier caller (arrival order), and
  not before the token taken \<open>capacity\<close> acquisitions ago is back. With no capacity
  no token ever becomes available and the caller stays suspended: \<open>None\<close>.
\<close>

definition acquire :: "nat \<Rightarrow> limiter \<Rightarrow> (nat \<times> limiter) option" where
  "acquire now l =
     (if capacity l \<le> 0 then None
      else
        let c = nat (capacity l);
            t0 = (case grants l of [] \<Rightarrow> now | g # _ \<Rightarrow> max now g);
            t = (if c \<le> length (grants l)
                 then max t0 (grants l ! (c - 1) + window l) else t0)
        in Some (t, l\<lparr>grants := t # grants l\<rparr>))"

text \<open>
  Modelled from the spec: a sequence of calls of \<^verbatim>\<open>acquire()\<close> arriving at the given
  times, served in the order of arrival: the times at which the callers resume, and the limiter after them; \<open>None\<close>
  when a caller stays suspended for ever. \<open>completed_in t w ts\<close> are the acquisitions
  completed in the window of length \<open>w\<close> that starts at \<open>t\<close>.
\<close>

fun acquire_all :: "nat list \<Rightarrow> limiter \<Rightarrow> (nat list \<times> limiter) option" where
  "acquire_all [] l = Some ([], l)"
| "acquire_all (now # nows) l =
     (case acquire now l of
        None \<Rightarrow> None
      | Some (t, l') \<Rightarrow>
          (case acquire_all nows l' of
             None \<Rightarrow> None
           | Some (ts, l'') \<Rightarrow> Some (t # ts, l'')))"

definition completed_in :: "nat \<Rightarrow> nat \<Rightarrow> nat list \<Rightarrow> nat list" where
  "completed_in t w ts = filter (\<lambda>g. t \<le> g \<and> g < t + w) ts"

section \<open>The API client and its surroundings\<close>

text \<open>\<^verbatim>\<open>Config\<close>, as far as the client reads it.\<close>

record config =
  TORN_API_BASE_URL :: string
  TORN_API_KEY :: "string option"
  API_RATE_LIMIT :: int
  USER_AGENT :: string
  REQUEST_TIMEOUT :: int

text \<open>An \<^verbatim>\<open>aiohttp.ClientSession\<close>: its \<^verbatim>\<open>closed\<close> flag and what it was created with.\<close>

record session_obj =
  is_closed :: bool
  timeout_total :: int
  user_agent :: string

text \<open>
  A log record is the level and the parts of the f-string passed to the logger: the
  literal text and the interpolated values, in order.
\<close>

datatype level = ERROR | INFO

datatype piece = Lit string | Str string | Num int | Val pyval | Exn py_exn

type_synonym log_entry = "level \<times> piece list"

text \<open>A dispatched request: the session handle used, the URL and the query parameters.\<close>

type_synonym request = "nat \<times> string \<times> params"

text \<open>
  The state: the fields of the \<^verbatim>\<open>TornAPI\<close> object (\<open>cfg\<close>, \<open>base_url\<close>, \<open>api_key\<close>,
  \<open>rate_limiter\<close>, \<open>session\<close>) and what the client acts on: the session objects it has
  created (a handle is an index into \<open>handles\<close>), the requests dispatched so far, the
  log and the clock. \<open>session = None\<close> is \<^verbatim>\<open>self.session is None\<close>.
\<close>

record state =
  cfg :: config
  base_url :: string
  api_key :: "string option"
  rate_limiter :: limiter
  session :: "nat option"
  handles :: "session_obj list"
  sent :: "request list"
  logged :: "log_entry list"
  clock :: nat

text \<open>
  What the network answers to a dispatched request: an HTTP status with the result of
  \<^verbatim>\<open>response.json()\<close> (the decoded payload, or the exception decoding raises), or an
  exception raised by the dispatch itself.
\<close>

datatype net_outcome = Response int "py_exn + pyval" | Raises py_exn

text \<open>
  The surroundings: \<open>respond n (url, params)\<close> is the outcome of the request dispatched
  after \<open>n\<close> earlier ones, \<open>elapsed n\<close> the time it takes. \<open>safe_get\<close> is the helper of
  the module \<^verbatim>\<open>utils\<close>, which is not among the sources: it is a parameter, and may
  return a value or raise.
\<close>

record env =
  respond :: "nat \<Rightarrow> string \<times> params \<Rightarrow> net_outcome"
  elapsed :: "nat \<Rightarrow> nat"
  safe_get :: "pyval \<Rightarrow> string \<Rightarrow> pyval \<Rightarrow> py_exn + pyval"

text \<open>\<^verbatim>\<open>TornAPI.__init__\<close>, at time \<open>t\<close>.\<close>

definition init :: "config \<Rightarrow> nat \<Rightarrow> state" where
  "init c t =
     \<lparr>cfg = c,
      base_url = TORN_API_BASE_URL c,
      api_key = TORN_API_KEY c,
      rate_limiter = RateLimiter (API_RATE_LIMIT c) 60,
      session = None,
      handles = [],
      sent = [],
      logged = [],
      clock = t\<rparr>"

definition log_msg :: "level \<Rightarrow> piece list \<Rightarrow> state \<Rightarrow> state" where
  "log_msg lv ps s = s\<lparr>logged := logged s @ [(lv, ps)]\<rparr>"

text \<open>\<^verbatim>\<open>self.session.closed\<close> of the handle \<open>h\<close>.\<close>

definition handle_closed :: "state \<Rightarrow> nat \<Rightarrow> bool" where
  "handle_closed s h = (h < length (handles s) \<and> is_closed (handles s ! h))"

text \<open>\<^verbatim>\<open>_get_session\<close>: the cached handle, or a new one when there is none or it is closed.\<close>

definition get_session :: "state \<Rightarrow> nat \<times> state" where
  "get_session s =
     (case session s of
        None \<Rightarrow>
          (length (handles s),
           s\<lparr>handles := handles s @
                [\<lparr>is_closed = False, timeout_total = REQUEST_TIMEOUT (cfg s),
                  user_agent = USER_AGENT (cfg s)\<rparr>],
              session := Some (length (handles s))\<rparr>)
      | Some h \<Rightarrow>
          if handle_closed s h then
            (length (handles s),
             s\<lparr>handles := handles s @
                  [\<lparr>is_closed = False, timeout_total = REQUEST_TIMEOUT (cfg s),
                    user_agent = USER_AGENT (cfg s)\<rparr>],
                session := Some (length (handles s))\<rparr>)
          else (h, s))"

text \<open>\<^verbatim>\<open>close\<close>: closes the cached session when there is one and it is open.\<close>

definition close :: "state \<Rightarrow> state" where
  "close s =
     (case session s of
        None \<Rightarrow> s
      | Some h \<Rightarrow>
          if \<not> handle_closed s h \<and> h < length (handles s)
          then s\<lparr>handles := (handles s)[h := (handles s ! h)\<lparr>is_closed := True\<rparr>]\<rparr>
          else s)"

text \<open>\<^verbatim>\<open>not self.api_key\<close>: the key is \<^verbatim>\<open>None\<close> or the empty string.\<close>

definition no_key :: "state \<Rightarrow> bool" where
  "no_key s = (case api_key s of None \<Rightarrow> True | Some k \<Rightarrow> k = [])"

text \<open>
  \<^verbatim>\<open>session = await self._get_session()\<close> and \<^verbatim>\<open>session.get(url, params=params)\<close>: the
  request goes out on the session obtained, and the network gives its outcome.
\<close>

definition send :: "env \<Rightarrow> state \<Rightarrow> string \<Rightarrow> params \<Rightarrow> net_outcome \<times> state" where
  "send E s url ps =
     (let (h, s1) = get_session s;
          n = length (sent s1)
      in (respond E n (url, ps),
          s1\<lparr>sent := sent s1 @ [(h, url, ps)], clock := clock s1 + elapsed E n\<rparr>))"

text \<open>
  The rest of the \<^verbatim>\<open>try\<close> block of \<^verbatim>\<open>_make_request\<close>: the outcome is classified. The
  result is the exception raised inside the block, or the value the block returns.
\<close>

fun classify :: "string \<Rightarrow> net_outcome \<Rightarrow> state \<Rightarrow> (py_exn + pyval) \<times> state" where
  "classify url (Raises e) s = (Inl e, s)"
| "classify url (Response status body) s =
     (if status = 200 then
        (case body of
           Inl e \<Rightarrow> (Inl e, s)
         | Inr data \<Rightarrow>
             (case py_in ''error'' data of
                Inl e \<Rightarrow> (Inl e, s)
              | Inr True \<Rightarrow>
                  (case py_subscript data ''error'' of
                     Inl e \<Rightarrow> (Inl e, s)
                   | Inr v \<Rightarrow> (Inr PNone, log_msg ERROR [Lit ''API error: '', Val v] s))
              | Inr False \<Rightarrow> (Inr data, s)))
      else
        (Inr PNone,
         log_msg ERROR [Lit ''HTTP error '', Num status, Lit '' for '', Str url] s))"

definition dispatch :: "env \<Rightarrow> state \<Rightarrow> string \<Rightarrow> params \<Rightarrow> (py_exn + pyval) \<times> state" where
  "dispatch E s url ps = (let (out, s1) = send E s url ps in classify url out s1)"

text \<open>
  The \<^verbatim>\<open>except\<close> clauses of \<^verbatim>\<open>_make_request\<close>: a timeout and every other exception
  are logged and become the \<^verbatim>\<open>None\<close> sentinel. \<open>ps\<close> is the caller's parameter mapping.
\<close>

fun handle_request_error ::
  "string \<Rightarrow> params option \<Rightarrow> (py_exn + pyval) \<times> state \<Rightarrow> (pyval \<times> params option) \<times> state" where
  "handle_request_error url ps (Inr v, s) = ((v, ps), s)"
| "handle_request_error url ps (Inl TimeoutError, s) =
     ((PNone, ps), log_msg ERROR [Lit ''Timeout for API request to '', Str url] s)"
| "handle_request_error url ps (Inl e, s) =
     ((PNone, ps),
      log_msg ERROR [Lit ''Error making API request to '', Str url, Lit '': '', Exn e] s)"

text \<open>
  \<^verbatim>\<open>f"{self.base_url}/{endpoint}"\<close>, and the parameters with the key added: an absent
  mapping (\<open>None\<close>) is replaced by an empty one.
\<close>

definition request_url :: "state \<Rightarrow> string \<Rightarrow> string" where
  "request_url s endpoint = base_url s @ ''/'' @ endpoint"

definition request_params :: "params option \<Rightarrow> string \<Rightarrow> params" where
  "request_params params key = dict_set (case params of None \<Rightarrow> [] | Some p \<Rightarrow> p) ''key'' key"

text \<open>
  \<^verbatim>\<open>_make_request(endpoint, params)\<close>. \<open>params\<close> is \<open>None\<close> for the default argument. The
  result is \<open>None\<close> when the call never returns (the limiter never grants), and
  otherwise the value returned, the caller's parameter mapping as the call leaves it,
  and the state.
\<close>

definition make_request ::
  "env \<Rightarrow> state \<Rightarrow> string \<Rightarrow> params option \<Rightarrow> ((pyval \<times> params option) \<times> state) option" where
  "make_request E s endpoint params =
     (case (if no_key s then None else api_key s) of
        None \<Rightarrow> Some ((PNone, params), log_msg ERROR [Lit ''No API key configured''] s)
      | Some key \<Rightarrow>
          (case acquire (clock s) (rate_limiter s) of
             None \<Rightarrow> None
           | Some (t, l) \<Rightarrow>
               (let s1 = s\<lparr>rate_limiter := l, clock := t\<rparr>;
                    url = request_url s endpoint;
                    ps = request_params params key;
                    params' = map_option (\<lambda>_. ps) params
                in Some (handle_request_error url params' (dispatch E s1 url ps)))))"

section \<open>Endpoint adapters\<close>

text \<open>
  Each adapter runs in a \<^verbatim>\<open>try\<close> block whose \<^verbatim>\<open>except Exception\<close> clause logs and
  returns the adapter's sentinel. The result of an adapter is \<open>None\<close> when the call never
  returns, and otherwise the value returned and the state.
\<close>

definition get_user_profile :: "env \<Rightarrow> state \<Rightarrow> int \<Rightarrow> (pyval \<times> state) option" where
  "get_user_profile E s user_id =
     (case make_request E s (''user/'' @ str_int user_id)
             (Some [(''selections'', ''basic,profile'')]) of
        None \<Rightarrow> None
      | Some ((data, _), s1) \<Rightarrow> Some (data, s1))"

definition get_faction_info :: "env \<Rightarrow> state \<Rightarrow> int \<Rightarrow> (pyval \<times> state) option" where
  "get_faction_info E s faction_id =
     (case make_request E s (''faction/'' @ str_int faction_id)
             (Some [(''selections'', ''basic'')]) of
        None \<Rightarrow> None
      | Some ((data, _), s1) \<Rightarrow> Some (data, s1))"

text \<open>\<^verbatim>\<open>data.get('members', {}) if data else {}\<close>.\<close>

definition members_of :: "pyval \<Rightarrow> py_exn + pyval" where
  "members_of data = (if truthy data then py_get data ''members'' (PDict []) else Inr (PDict []))"

definition get_faction_members :: "env \<Rightarrow> state \<Rightarrow> int \<Rightarrow> (pyval \<times> state) option" where
  "get_faction_members E s faction_id =
     (case make_request E s (''faction/'' @ str_int faction_id)
             (Some [(''selections'', ''members'')]) of
        None \<Rightarrow> None
      | Some ((data, _), s1) \<Rightarrow>
          (case members_of data of
             Inr v \<Rightarrow> Some (v, s1)
           | Inl e \<Rightarrow>
               Some (PDict [],
                     log_msg ERROR [Lit ''Error getting faction members for '', Num faction_id,
                                    Lit '': '', Exn e] s1)))"

text \<open>\<^verbatim>\<open>safe_get(data, 'items', {}).get(str(item_id), {})\<close>.\<close>

definition item_of :: "env \<Rightarrow> pyval \<Rightarrow> int \<Rightarrow> py_exn + pyval" where
  "item_of E data item_id =
     (case safe_get E data ''items'' (PDict []) of
        Inl e \<Rightarrow> Inl e
      | Inr items \<Rightarrow> py_get items (str_int item_id) (PDict []))"

definition get_item_info :: "env \<Rightarrow> state \<Rightarrow> int \<Rightarrow> (pyval \<times> state) option" where
  "get_item_info E s item_id =
     (case make_request E s ''torn'' (Some [(''selections'', ''items'')]) of
        None \<Rightarrow> None
      | Some ((data, _), s1) \<Rightarrow>
          (case item_of E data item_id of
             Inr v \<Rightarrow> Some (v, s1)
           | Inl e \<Rightarrow>
               Some (PNone,
                     log_msg ERROR [Lit ''Error getting item info for '', Num item_id,
                                    Lit '': '', Exn e] s1)))"

text \<open>
  \<^verbatim>\<open>get_player_bazaar\<close>, after the request: the value of \<^verbatim>\<open>'bazaar'\<close> when the payload is
  truthy and holds it, the empty list otherwise; an exception on the way is the
  \<open>Inl\<close> result.
\<close>

definition player_bazaar_of :: "pyval \<Rightarrow> py_exn + (pyval \<times> int) option" where
  "player_bazaar_of data =
     (if truthy data then
        (case py_in ''bazaar'' data of
           Inl e \<Rightarrow> Inl e
         | Inr False \<Rightarrow> Inr None
         | Inr True \<Rightarrow>
             (case py_get data ''bazaar'' (PList []) of
                Inl e \<Rightarrow> Inl e
              | Inr bazaar_items \<Rightarrow>
                  (case py_len bazaar_items of
                     Inl e \<Rightarrow> Inl e
                   | Inr n \<Rightarrow> Inr (Some (bazaar_items, n)))))
      else Inr None)"

definition get_player_bazaar :: "env \<Rightarrow> state \<Rightarrow> int \<Rightarrow> (pyval \<times> state) option" where
  "get_player_bazaar E s player_id =
     (case make_request E s (''user/'' @ str_int player_id) (Some [(''selections'', ''bazaar'')]) of
        None \<Rightarrow> None
      | Some ((data, _), s1) \<Rightarrow>
          (case player_bazaar_of data of
             Inr (Some (bazaar_items, n)) \<Rightarrow>
               Some (bazaar_items,
                     log_msg INFO [Lit ''Found '', Num n, Lit '' bazaar items for player '',
                                   Num player_id] s1)
           | Inr None \<Rightarrow>
               Some (PList [],
                     log_msg INFO [Lit ''No bazaar data found for player '', Num player_id] s1)
           | Inl e \<Rightarrow>
               Some (PList [],
                     log_msg ERROR [Lit ''Error getting bazaar for player '', Num player_id,
                                    Lit '': '', Exn e] s1)))"

section \<open>Market normalizer\<close>

text \<open>
  \<^verbatim>\<open>item.get('item_id') or item.get('ID') or item.get('itemID')\<close> for a dictionary
  \<open>item\<close>.
\<close>

definition item_market_id :: "(string \<times> pyval) list \<Rightarrow> pyval" where
  "item_market_id item =
     py_or (py_or (dict_get item ''item_id'') (dict_get item ''ID'')) (dict_get item ''itemID'')"

text \<open>The test of the loop over the itemmarket listings.\<close>

fun itemmarket_match :: "int \<Rightarrow> pyval \<Rightarrow> bool" where
  "itemmarket_match item_id (PDict item) = py_eq_int (item_market_id item) item_id"
| "itemmarket_match item_id v = False"

text \<open>
  The list \<^verbatim>\<open>item_listings\<close> built from the itemmarket payload, or \<open>None\<close> when the
  payload is not a non-empty dictionary or the listings are not a list.
\<close>

fun itemmarket_listings :: "pyval \<Rightarrow> int \<Rightarrow> pyval list option" where
  "itemmarket_listings (PDict kvs) item_id =
     (if kvs \<noteq> [] then
        (case dict_get_default kvs ''itemmarket'' (PDict kvs) of
           PList market_items \<Rightarrow> Some (filter (itemmarket_match item_id) market_items)
         | _ \<Rightarrow> None)
      else None)"
| "itemmarket_listings v item_id = None"

text \<open>The test of the loop over the bazaar listings.\<close>

fun bazaar_match :: "int \<Rightarrow> pyval \<Rightarrow> bool" where
  "bazaar_match item_id (PDict item) = py_eq_int (dict_get item ''ID'') item_id"
| "bazaar_match item_id v = False"

text \<open>
  The list \<^verbatim>\<open>item_listings\<close> built from the bazaar payload, \<open>None\<close> when the payload is
  falsy or has no \<^verbatim>\<open>'bazaar'\<close>; an exception on the way is the \<open>Inl\<close> result.
\<close>

definition bazaar_listings :: "pyval \<Rightarrow> int \<Rightarrow> py_exn + pyval list option" where
  "bazaar_listings data item_id =
     (if truthy data then
        (case py_in ''bazaar'' data of
           Inl e \<Rightarrow> Inl e
         | Inr False \<Rightarrow> Inr None
         | Inr True \<Rightarrow>
             (case py_get data ''bazaar'' (PList []) of
                Inl e \<Rightarrow> Inl e
              | Inr bazaar_items \<Rightarrow>
                  (case py_iter bazaar_items of
                     Inl e \<Rightarrow> Inl e
                   | Inr items \<Rightarrow> Inr (Some (filter (bazaar_match item_id) items)))))
      else Inr None)"

text \<open>The part of \<^verbatim>\<open>get_item_market\<close> after the fallback request.\<close>

definition market_fallback :: "pyval \<Rightarrow> int \<Rightarrow> state \<Rightarrow> pyval \<times> state" where
  "market_fallback data item_id s =
     (case bazaar_listings data item_id of
        Inl e \<Rightarrow>
          (PList [],
           log_msg ERROR [Lit ''Error getting item market for '', Num item_id, Lit '': '', Exn e] s)
      | Inr (Some (l # ls)) \<Rightarrow>
          (PList (l # ls),
           log_msg INFO [Lit ''Found '', Num (int (length (l # ls))),
                         Lit '' bazaar listings for item '', Num item_id] s)
      | Inr _ \<Rightarrow>
          (PList [], log_msg INFO [Lit ''No market data found for item '', Num item_id] s))"

definition get_item_market :: "env \<Rightarrow> state \<Rightarrow> int \<Rightarrow> (pyval \<times> state) option" where
  "get_item_market E s item_id =
     (case make_request E s ''itemmarket'' (Some []) of
        None \<Rightarrow> None
      | Some ((data, _), s1) \<Rightarrow>
          (case itemmarket_listings data item_id of
             Some (l # ls) \<Rightarrow>
               Some (PList (l # ls),
                     log_msg INFO [Lit ''Found '', Num (int (length (l # ls))),
                                   Lit '' itemmarket listings for item '', Num item_id] s1)
           | _ \<Rightarrow>
               (case make_request E s1 ''market'' (Some [(''selections'', ''bazaar'')]) of
                  None \<Rightarrow> None
                | Some ((data2, _), s2) \<Rightarrow> Some (market_fallback data2 item_id s2))))"

section \<open>Example configurations and feeds\<close>

text \<open>A client with a key and a client without one, both with the default quota.\<close>

definition demo_config :: config where
  "demo_config =
     \<lparr>TORN_API_BASE_URL = ''https://api.torn.com'',
      TORN_API_KEY = Some ''s3cr3t'',
      API_RATE_LIMIT = 100,
      USER_AGENT = ''TornCityBot/1.0 (Discord Bot)'',
      REQUEST_TIMEOUT = 30\<rparr>"

definition demo_state :: state where
  "demo_state = init demo_config 0"

definition keyless_state :: state where
  "keyless_state = init (demo_config\<lparr>TORN_API_KEY := None\<rparr>) 0"

text \<open>A stand-in for the helper \<^verbatim>\<open>safe_get\<close>: the entry of a dictionary, or the default.\<close>

fun demo_safe_get :: "pyval \<Rightarrow> string \<Rightarrow> pyval \<Rightarrow> py_exn + pyval" where
  "demo_safe_get (PDict kvs) k d = Inr (dict_get_default kvs k d)"
| "demo_safe_get v k d = Inr d"

text \<open>An environment that gives every request the same outcome.\<close>

definition const_env :: "net_outcome \<Rightarrow> env" where
  "const_env out = \<lparr>respond = (\<lambda>n req. out), elapsed = (\<lambda>n. 1), safe_get = demo_safe_get\<rparr>"

text \<open>
  The feeds of the two market endpoints: the itemmarket feed lists the items 7 and 9, the
  bazaar feed the items 43 and 42, and an entry that names the item 42 under another
  field.
\<close>

definition itemmarket_feed :: pyval where
  "itemmarket_feed =
     PDict [(''itemmarket'',
             PList [PDict [(''ID'', PInt 7), (''price'', PInt 100)],
                    PDict [(''ID'', PInt 9), (''price'', PInt 5)]])]"

definition bazaar_feed :: pyval where
  "bazaar_feed =
     PDict [(''bazaar'',
             PList [PDict [(''ID'', PInt 43), (''price'', PInt 9)],
                    PDict [(''ID'', PInt 42), (''price'', PInt 50)],
                    PDict [(''item_id'', PInt 42), (''price'', PInt 1)]])]"

definition market_env :: env where
  "market_env =
     \<lparr>respond = (\<lambda>n (url, ps).
          if url = ''https://api.torn.com/itemmarket'' then Response 200 (Inr itemmarket_feed)
          else if url = ''https://api.torn.com/market'' then Response 200 (Inr bazaar_feed)
          else Response 404 (Inl (OtherException ''not found''))),
      elapsed = (\<lambda>n. 1),
      safe_get = demo_safe_get\<rparr>"

text \<open>The payload by which the provider reports an error.\<close>

definition error_payload :: pyval where
  "error_payload = PDict [(''error'', PDict [(''code'', PInt 2)])]"

section \<open>Observations\<close>

text \<open>
  What a caller sees of a call: the value returned, the log after it, and the URLs and
  query parameters of the requests dispatched up to then. A call that never returns
  shows nothing.
\<close>

definition returned :: "(pyval \<times> state) option \<Rightarrow> pyval option" where
  "returned r = map_option fst r"

definition log_after :: "(pyval \<times> state) option \<Rightarrow> log_entry list" where
  "log_after r = (case r of None \<Rightarrow> [] | Some (v, s) \<Rightarrow> logged s)"

definition requests_after :: "(pyval \<times> state) option \<Rightarrow> (string \<times> params) list" where
  "requests_after r = (case r of None \<Rightarrow> [] | Some (v, s) \<Rightarrow> map snd (sent s))"

text \<open>The same call of \<^verbatim>\<open>_make_request\<close>, without the caller's parameter mapping.\<close>

definition request_result :: "env \<Rightarrow> state \<Rightarrow> string \<Rightarrow> params option \<Rightarrow> (pyval \<times> state) option" where
  "request_result E s endpoint params =
     map_option (\<lambda>((v, p), s'). (v, s')) (make_request E s endpoint params)"

text \<open>The caller's parameter mapping after a call of \<^verbatim>\<open>_make_request\<close>.\<close>

definition params_after :: "((pyval \<times> params option) \<times> state) option \<Rightarrow> params option" where
  "params_after r = (case r of None \<Rightarrow> None | Some ((v, p), s) \<Rightarrow> p)"

section \<open>Notions of the specification\<close>

text \<open>
  The failure kinds of the specification's error taxonomy. The pipeline keeps no record
  of its classification other than the message it logs; \<open>failure_kind_of\<close> reads the
  kind off a log record.
\<close>

datatype failure_kind = ConfigurationError | TransportError | ProtocolError | LogicalError

definition failure_kind_of :: "log_entry \<Rightarrow> failure_kind option" where
  "failure_kind_of e =
     (case e of
        (ERROR, Lit t # ps) \<Rightarrow>
          if t = ''No API key configured'' then Some ConfigurationError
          else if t = ''API error: '' then Some LogicalError
          else if t = ''HTTP error '' then Some ProtocolError
          else if t = ''Timeout for API request to '' \<or> t = ''Error making API request to ''
          then Some TransportError
          else None
      | _ \<Rightarrow> None)"

text \<open>
  The identifier of a listing in the specification's words: the first value that is not
  \<^verbatim>\<open>None\<close> among the accepted field names, in their order of priority.
\<close>

definition id_fields :: "string list" where
  "id_fields = [''item_id'', ''ID'', ''itemID'']"

fun first_non_null :: "(string \<times> pyval) list \<Rightarrow> string list \<Rightarrow> pyval" where
  "first_non_null item [] = PNone"
| "first_non_null item (f # fs) =
     (if dict_get item f = PNone then first_non_null item fs else dict_get item f)"





text \<open>
  The session handles that are open, and the invariant of the session manager: the
  cached handle exists, and every other handle the client has created is closed.
\<close>

definition live_handles :: "state \<Rightarrow> nat list" where
  "live_handles s = filter (\<lambda>h. \<not> is_closed (handles s ! h)) [0..<length (handles s)]"

definition session_inv :: "state \<Rightarrow> bool" where
  "session_inv s =
     ((case session s of None \<Rightarrow> True | Some h \<Rightarrow> h < length (handles s)) \<and>
      list_all (\<lambda>h. session s = Some h) (live_handles s))"

text \<open>
  The strings a Python value holds, and whether a key occurs in a part of a log record:
  in its text, or in a string of an interpolated value.
\<close>

fun strings_of :: "pyval \<Rightarrow> string list" where
  "strings_of (PStr s) = [s]"
| "strings_of (PList xs) = concat (map strings_of xs)"
| "strings_of (PDict kvs) = concat (map (\<lambda>(k, v). k # strings_of v) kvs)"
| "strings_of v = []"

fun piece_mentions :: "string \<Rightarrow> piece \<Rightarrow> bool" where
  "piece_mentions k (Lit t) = is_substring k t"
| "piece_mentions k (Str t) = is_substring k t"
| "piece_mentions k (Num n) = is_substring k (str_int n)"
| "piece_mentions k (Val v) = list_ex (is_substring k) (strings_of v)"
| "piece_mentions k (Exn (OtherException t)) = is_substring k t"
| "piece_mentions k (Exn e) = False"

definition key_in_log :: "string \<Rightarrow> log_entry list \<Rightarrow> bool" where
  "key_in_log k es = list_ex (\<lambda>e. list_ex (piece_mentions k) (snd e)) es"

text \<open>
  An exception of the HTTP library whose text quotes the requested URL with its query
  string, as a response of an unexpected content type raises when it is decoded.
\<close>

definition content_type_error :: py_exn where
  "content_type_error =
     OtherException
       ''200, message=unexpected mimetype: text/html, url=https://api.torn.com/user/1?key=s3cr3t''"

section \<open>Basic facts\<close>

text \<open>The definitions that evaluate a run of the client on an example.\<close>

lemmas run_defs =
  request_result_def make_request_def no_key_def demo_state_def keyless_state_def init_def
  demo_config_def RateLimiter_def acquire_def Let_def dispatch_def send_def get_session_def
  const_env_def market_env_def handle_closed_def request_url_def request_params_def log_msg_def
  returned_def log_after_def requests_after_def

lemma acquire_Some:
  "0 < capacity l \<Longrightarrow> \<exists>t gs. acquire now l = Some (t, l\<lparr>grants := gs\<rparr>) \<and> now \<le> t"
  by (auto simp: acquire_def Let_def split: list.splits)

lemma no_key_iff: "no_key s \<longleftrightarrow> api_key s = None \<or> api_key s = Some []"
  by (simp add: no_key_def split: option.splits)

lemma get_session_frame:
  "get_session s = (h, s') \<Longrightarrow>
     cfg s' = cfg s \<and> base_url s' = base_url s \<and> api_key s' = api_key s \<and>
     rate_limiter s' = rate_limiter s \<and> sent s' = sent s \<and> logged s' = logged s \<and>
     clock s' = clock s"
  by (auto simp: get_session_def split: option.splits if_splits)

lemma send_frame:
  "send E s url ps = (out, s') \<Longrightarrow>
     out = respond E (length (sent s)) (url, ps) \<and>
     cfg s' = cfg s \<and> base_url s' = base_url s \<and> api_key s' = api_key s \<and>
     rate_limiter s' = rate_limiter s \<and> logged s' = logged s \<and>
     sent s' = sent s @ [(fst (get_session s), url, ps)]"
  by (auto simp: send_def Let_def split: prod.splits dest!: get_session_frame)

lemma classify_frame:
  "classify url out s = (r, s') \<Longrightarrow>
     cfg s' = cfg s \<and> base_url s' = base_url s \<and> api_key s' = api_key s \<and>
     rate_limiter s' = rate_limiter s \<and> sent s' = sent s \<and> session s' = session s \<and>
     handles s' = handles s"
  by (cases out)
    (auto simp: log_msg_def split: sum.splits if_splits bool.splits)

lemma classify_value:
  "classify url out s = (Inr v, s') \<Longrightarrow> v = PNone \<or> out = Response 200 (Inr v)"
  by (cases out)
    (auto simp: log_msg_def split: sum.splits if_splits bool.splits)

lemma handle_request_error_frame:
  "handle_request_error url p (r, s) = ((v, p'), s') \<Longrightarrow>
     p' = p \<and> cfg s' = cfg s \<and> base_url s' = base_url s \<and> api_key s' = api_key s \<and>
     rate_limiter s' = rate_limiter s \<and> sent s' = sent s \<and> session s' = session s \<and>
     handles s' = handles s \<and> (v = PNone \<or> r = Inr v)"
  by (cases "(url, p, (r, s))" rule: handle_request_error.cases) (auto simp: log_msg_def)

lemma make_request_unkeyed:
  "no_key s \<Longrightarrow>
     make_request E s ep params =
       Some ((PNone, params), log_msg ERROR [Lit ''No API key configured''] s)"
  by (simp add: make_request_def)

text \<open>
  With a key and a limiter that grants, the call is the dispatch of one request: the
  outcome of the network is classified in a state \<open>s1\<close> that differs from the one before
  by the token taken, the session obtained and the request sent.
\<close>

lemma make_request_run:
  assumes "api_key s = Some k" "k \<noteq> []" "0 < capacity (rate_limiter s)"
  shows "\<exists>s1. make_request E s ep params =
           Some (handle_request_error (request_url s ep)
                  (map_option (\<lambda>_. request_params params k) params)
                  (classify (request_url s ep)
                     (respond E (length (sent s)) (request_url s ep, request_params params k))
                     s1)) \<and>
           logged s1 = logged s \<and>
           map snd (sent s1) = map snd (sent s) @ [(request_url s ep, request_params params k)] \<and>
           api_key s1 = api_key s \<and> base_url s1 = base_url s \<and> cfg s1 = cfg s \<and>
           capacity (rate_limiter s1) = capacity (rate_limiter s)"
proof -
  from acquire_Some [OF assms(3)] obtain t gs where
    a: "acquire (clock s) (rate_limiter s) = Some (t, (rate_limiter s)\<lparr>grants := gs\<rparr>)"
    by blast
  let ?s0 = "s\<lparr>rate_limiter := (rate_limiter s)\<lparr>grants := gs\<rparr>, clock := t\<rparr>"
  obtain out s1 where d: "send E ?s0 (request_url s ep) (request_params params k) = (out, s1)"
    by (cases "send E ?s0 (request_url s ep) (request_params params k)")
  from send_frame [OF d]
  have fr: "out = respond E (length (sent s)) (request_url s ep, request_params params k)"
    "logged s1 = logged s"
    "map snd (sent s1) = map snd (sent s) @ [(request_url s ep, request_params params k)]"
    "api_key s1 = api_key s" "base_url s1 = base_url s" "cfg s1 = cfg s"
    "capacity (rate_limiter s1) = capacity (rate_limiter s)"
    by simp_all
  have "make_request E s ep params =
           Some (handle_request_error (request_url s ep)
                  (map_option (\<lambda>_. request_params params k) params)
                  (classify (request_url s ep) out s1))"
    using assms(1,2) by (simp add: make_request_def no_key_def a Let_def dispatch_def d)
  with fr show ?thesis by blast
qed

lemma make_request_returns:
  assumes "0 < capacity (rate_limiter s)"
  shows "\<exists>v p s'. make_request E s ep params = Some ((v, p), s') \<and>
           capacity (rate_limiter s') = capacity (rate_limiter s) \<and>
           api_key s' = api_key s \<and> base_url s' = base_url s \<and> cfg s' = cfg s \<and>
           (v = PNone \<or>
            (\<exists>k. api_key s = Some k \<and>
                 respond E (length (sent s)) (request_url s ep, request_params params k) =
                   Response 200 (Inr v)))"
proof (cases "no_key s")
  case True
  then show ?thesis by (simp add: make_request_unkeyed log_msg_def)
next
  case False
  then obtain k where k: "api_key s = Some k" "k \<noteq> []"
    by (auto simp: no_key_iff)
  let ?url = "request_url s ep"
  let ?q = "request_params params k"
  let ?out = "respond E (length (sent s)) (?url, ?q)"
  from make_request_run [OF k assms, of E ep params] obtain s1 where
    m: "make_request E s ep params =
          Some (handle_request_error ?url (map_option (\<lambda>_. ?q) params) (classify ?url ?out s1))"
    and fr1: "api_key s1 = api_key s" "base_url s1 = base_url s" "cfg s1 = cfg s"
      "capacity (rate_limiter s1) = capacity (rate_limiter s)"
    by blast
  obtain r s2 where c: "classify ?url ?out s1 = (r, s2)"
    by (cases "classify ?url ?out s1")
  obtain v p s3 where h: "handle_request_error ?url (map_option (\<lambda>_. ?q) params) (r, s2) = ((v, p), s3)"
    by (cases "handle_request_error ?url (map_option (\<lambda>_. ?q) params) (r, s2)") auto
  have eq: "make_request E s ep params = Some ((v, p), s3)"
    by (simp only: m c h)
  from classify_frame [OF c] handle_request_error_frame [OF h] fr1
  have fr: "capacity (rate_limiter s3) = capacity (rate_limiter s)"
    "api_key s3 = api_key s" "base_url s3 = base_url s" "cfg s3 = cfg s" "v = PNone \<or> r = Inr v"
    by simp_all
  have "v = PNone \<or> ?out = Response 200 (Inr v)"
    using fr(5) classify_value [of ?url ?out s1 v s2] c by auto
  with eq fr k(1) show ?thesis by blast
qed

lemma get_user_profile_returns:
  "0 < capacity (rate_limiter s) \<Longrightarrow> \<exists>v s'. get_user_profile E s i = Some (v, s')"
  using make_request_returns [of s E "''user/'' @ str_int i" "Some [(''selections'', ''basic,profile'')]"]
  by (auto simp: get_user_profile_def)

lemma get_faction_info_returns:
  "0 < capacity (rate_limiter s) \<Longrightarrow> \<exists>v s'. get_faction_info E s i = Some (v, s')"
  using make_request_returns [of s E "''faction/'' @ str_int i" "Some [(''selections'', ''basic'')]"]
  by (auto simp: get_faction_info_def)

lemma get_faction_members_returns:
  "0 < capacity (rate_limiter s) \<Longrightarrow> \<exists>v s'. get_faction_members E s i = Some (v, s')"
  using make_request_returns [of s E "''faction/'' @ str_int i" "Some [(''selections'', ''members'')]"]
  by (auto simp: get_faction_members_def split: sum.splits)

lemma get_item_info_returns:
  "0 < capacity (rate_limiter s) \<Longrightarrow> \<exists>v s'. get_item_info E s i = Some (v, s')"
  using make_request_returns [of s E "''torn''" "Some [(''selections'', ''items'')]"]
  by (auto simp: get_item_info_def split: sum.splits)

lemma get_player_bazaar_returns:
  "0 < capacity (rate_limiter s) \<Longrightarrow> \<exists>v s'. get_player_bazaar E s i = Some (v, s')"
  using make_request_returns [of s E "''user/'' @ str_int i" "Some [(''selections'', ''bazaar'')]"]
  by (auto simp: get_player_bazaar_def split: sum.splits option.splits)

lemma market_fallback_list: "\<exists>ls s'. market_fallback d i s = (PList ls, s')"
  by (auto simp: market_fallback_def split: sum.splits option.splits list.splits)


section \<open>The request pipeline\<close>

text \<open>
  C3. With no authentication key configured (the key is \<^verbatim>\<open>None\<close> or the empty string),
  \<^verbatim>\<open>_make_request\<close> returns the \<^verbatim>\<open>None\<close> sentinel at once, and its only effect is the
  logged error: the rate limiter is as before (no token is taken and the clock has not
  moved), no session is obtained or created, no request is dispatched, and the caller's
  parameter mapping is untouched.
\<close>

theorem make_request_no_key:
  "no_key s \<Longrightarrow>
     make_request E s endpoint params =
       Some ((PNone, params),
             s\<lparr>logged := logged s @ [(ERROR, [Lit ''No API key configured''])]\<rparr>)"
  by (simp add: make_request_def log_msg_def)

theorem make_request_no_key_witness:
  "no_key keyless_state \<and>
   make_request (const_env (Raises TimeoutError)) keyless_state ''user/1'' None =
     Some ((PNone, None),
           keyless_state\<lparr>logged := logged keyless_state @
                                    [(ERROR, [Lit ''No API key configured''])]\<rparr>)"
proof -
  have h: "no_key keyless_state"
    by (simp add: no_key_def keyless_state_def init_def demo_config_def)
  show ?thesis
    using h make_request_no_key [OF h, of "const_env (Raises TimeoutError)" "''user/1''" None]
    by simp
qed
















lemma request_run:
  assumes "api_key s = Some k" "k \<noteq> []" "0 < capacity (rate_limiter s)"
  shows "\<exists>s1 p. make_request E s ep params =
           Some (handle_request_error (request_url s ep) p
                  (classify (request_url s ep)
                     (respond E (length (sent s)) (request_url s ep, request_params params k))
                     s1)) \<and>
           logged s1 = logged s"
  using make_request_run [OF assms, of E ep params] by blast

text \<open>
  C4 (amended). When the response carries a payload with a top-level \<^verbatim>\<open>error\<close> key,
  \<^verbatim>\<open>_make_request\<close> returns the \<^verbatim>\<open>None\<close> sentinel whatever the HTTP status is. It is
  recorded as a logical failure (the message \<^verbatim>\<open>API error\<close> with the error detail) when
  the status is 200; with any other status the payload is not looked at, and the call is
  recorded as a protocol failure (the message \<^verbatim>\<open>HTTP error\<close> with status and URL).
\<close>

theorem error_payload_gives_none:
  assumes "api_key s = Some k" "k \<noteq> []" "0 < capacity (rate_limiter s)"
    and "respond E (length (sent s)) (request_url s endpoint, request_params params k) =
           Response status (Inr (PDict kvs))"
    and "map_of kvs ''error'' = Some detail"
  shows "returned (request_result E s endpoint params) = Some PNone \<and>
         log_after (request_result E s endpoint params) =
           logged s @
           [if status = 200 then (ERROR, [Lit ''API error: '', Val detail])
            else (ERROR, [Lit ''HTTP error '', Num status, Lit '' for '',
                          Str (request_url s endpoint)])] \<and>
         map failure_kind_of (drop (length (logged s)) (log_after (request_result E s endpoint params))) =
           [Some (if status = 200 then LogicalError else ProtocolError)]"
proof -
  from request_run [OF assms(1-3), of E endpoint params] obtain s1 p where
    m: "make_request E s endpoint params =
          Some (handle_request_error (request_url s endpoint) p
                 (classify (request_url s endpoint) (Response status (Inr (PDict kvs))) s1))"
    and l: "logged s1 = logged s"
    unfolding assms(4) by blast
  show ?thesis
    by (simp add: request_result_def m assms(5) returned_def log_after_def log_msg_def l
        failure_kind_of_def)
qed

theorem error_payload_gives_none_witness:
  "returned (request_result (const_env (Response 200 (Inr error_payload))) demo_state ''user/1'' None) =
     Some PNone \<and>
   log_after (request_result (const_env (Response 200 (Inr error_payload))) demo_state ''user/1'' None) =
     [(ERROR, [Lit ''API error: '', Val (PDict [(''code'', PInt 2)])])]"
proof -
  have k: "api_key demo_state = Some ''s3cr3t''" "''s3cr3t'' \<noteq> []"
    by (simp_all add: demo_state_def init_def demo_config_def)
  have c: "0 < capacity (rate_limiter demo_state)"
    by (simp add: demo_state_def init_def RateLimiter_def demo_config_def)
  have r: "respond (const_env (Response 200 (Inr error_payload))) (length (sent demo_state))
             (request_url demo_state ''user/1'', request_params None ''s3cr3t'') =
           Response 200 (Inr (PDict [(''error'', PDict [(''code'', PInt 2)])]))"
    by (simp add: const_env_def error_payload_def)
  have e: "map_of [(''error'', PDict [(''code'', PInt 2)])] ''error'' = Some (PDict [(''code'', PInt 2)])"
    by simp
  have l: "logged demo_state = []"
    by (simp add: demo_state_def init_def)
  show ?thesis
    using error_payload_gives_none [OF k c r e] by (simp add: l)
qed

text \<open>
  The claim as stated fails for a status other than 200: a 500 response with the error
  payload is recorded as a protocol failure, not as a logical one.
\<close>

theorem error_payload_status_500_counterexample:
  "returned (request_result (const_env (Response 500 (Inr error_payload))) demo_state ''user/1'' None) =
     Some PNone \<and>
   map failure_kind_of
     (log_after (request_result (const_env (Response 500 (Inr error_payload))) demo_state ''user/1'' None)) =
     [Some ProtocolError]"
  by (simp add: request_result_def make_request_def no_key_def demo_state_def init_def demo_config_def
      RateLimiter_def acquire_def Let_def dispatch_def send_def get_session_def const_env_def
      handle_closed_def request_url_def request_params_def log_msg_def returned_def log_after_def
      failure_kind_of_def)

section \<open>The caller's parameter mapping\<close>

lemma map_of_dict_set: "map_of (dict_set ps k v) = (map_of ps)(k \<mapsto> v)"
  by (induction ps) (auto simp: fun_eq_iff)

lemma keys_dict_set_old: "k \<in> fst ` set ps \<Longrightarrow> map fst (dict_set ps k v) = map fst ps"
  by (induction ps) force+

lemma keys_dict_set_new: "k \<notin> fst ` set ps \<Longrightarrow> map fst (dict_set ps k v) = map fst ps @ [k]"
  by (induction ps) auto

lemma keys_dict_set:
  "map fst (dict_set ps k v) = (if k \<in> fst ` set ps then map fst ps else map fst ps @ [k])"
  by (simp add: keys_dict_set_old keys_dict_set_new)

lemma dict_set_count:
  "distinct (map fst ps) \<Longrightarrow> length (filter (\<lambda>e. fst e = k) (dict_set ps k v)) = 1"
proof (induction ps)
  case Nil
  then show ?case by simp
next
  case (Cons a ps)
  have "k \<notin> fst ` set ps \<Longrightarrow> filter (\<lambda>e. fst e = k) ps = []"
    by (auto simp: filter_empty_conv)
  with Cons show ?case by (cases a) auto
qed

lemma params_after_run:
  assumes "api_key s = Some k" "k \<noteq> []" "0 < capacity (rate_limiter s)"
  shows "params_after (make_request E s ep params) =
           map_option (\<lambda>_. request_params params k) params"
proof -
  let ?url = "request_url s ep"
  let ?p = "map_option (\<lambda>_. request_params params k) params"
  from make_request_run [OF assms, of E ep params] obtain s1 where
    m: "make_request E s ep params =
          Some (handle_request_error ?url ?p
                 (classify ?url (respond E (length (sent s)) (?url, request_params params k)) s1))"
    by blast
  obtain r s2 where c: "classify ?url (respond E (length (sent s)) (?url, request_params params k)) s1 = (r, s2)"
    by (cases "classify ?url (respond E (length (sent s)) (?url, request_params params k)) s1")
  obtain v p s3 where h: "handle_request_error ?url ?p (r, s2) = ((v, p), s3)"
    by (cases "handle_request_error ?url ?p (r, s2)") auto
  from handle_request_error_frame [OF h] have "p = ?p" by simp
  then show ?thesis by (simp only: m c h params_after_def option.case prod.case)
qed

text \<open>
  C10 (amended). When a key is configured and the caller passes a parameter mapping,
  \<^verbatim>\<open>_make_request\<close> changes that mapping in place: after the call, whether it succeeded
  or failed, the mapping holds the key under \<^verbatim>\<open>'key'\<close>, every other entry is as before,
  and the order of the entries is kept (a new \<^verbatim>\<open>'key'\<close> entry comes last).
\<close>

theorem make_request_mutates_params:
  assumes "api_key s = Some k" "k \<noteq> []" "0 < capacity (rate_limiter s)"
  shows "params_after (make_request E s endpoint (Some ps)) = Some (dict_set ps ''key'' k) \<and>
         map_of (dict_set ps ''key'' k) ''key'' = Some k \<and>
         (\<forall>k'. k' \<noteq> ''key'' \<longrightarrow> map_of (dict_set ps ''key'' k) k' = map_of ps k') \<and>
         map fst (dict_set ps ''key'' k) =
           (if ''key'' \<in> fst ` set ps then map fst ps else map fst ps @ [''key''])"
  using params_after_run [OF assms, of E endpoint "Some ps"]
  by (simp add: request_params_def map_of_dict_set keys_dict_set)

theorem make_request_mutates_params_witness:
  "params_after (make_request (const_env (Raises TimeoutError)) demo_state ''user/1''
      (Some [(''selections'', ''basic,profile'')])) =
     Some [(''selections'', ''basic,profile''), (''key'', ''s3cr3t'')]"
proof -
  have k: "api_key demo_state = Some ''s3cr3t''" "''s3cr3t'' \<noteq> []"
    by (simp_all add: demo_state_def init_def demo_config_def)
  have c: "0 < capacity (rate_limiter demo_state)"
    by (simp add: demo_state_def init_def RateLimiter_def demo_config_def)
  show ?thesis
    using make_request_mutates_params [OF k c, of "const_env (Raises TimeoutError)" "''user/1''"
        "[(''selections'', ''basic,profile'')]"]
    by simp
qed

text \<open>
  The claim as stated fails when no key is configured: the call returns before the
  assignment, and the caller's mapping has no \<^verbatim>\<open>'key'\<close> entry afterwards.
\<close>

theorem make_request_keeps_params_counterexample:
  "params_after (make_request (const_env (Response 200 (Inr (PDict [(''name'', PStr ''x'')]))))
      keyless_state ''user/1'' (Some [(''selections'', ''basic,profile'')])) =
     Some [(''selections'', ''basic,profile'')]"
  by (simp add: make_request_def no_key_def keyless_state_def init_def demo_config_def
      params_after_def)

section \<open>The market normalizer\<close>

lemma item_market_id_cases:
  "item_market_id item =
     (if truthy (dict_get item ''item_id'') then dict_get item ''item_id''
      else if truthy (dict_get item ''ID'') then dict_get item ''ID''
      else dict_get item ''itemID'')"
  by (simp add: item_market_id_def py_or_def)

lemma truthy_not_None: "truthy v \<Longrightarrow> v \<noteq> PNone"
  by auto

lemma item_market_id_non_null:
  assumes "list_all (\<lambda>f. dict_get item f = PNone \<or> truthy (dict_get item f)) id_fields"
  shows "item_market_id item = first_non_null item id_fields"
  using assms by (auto simp: item_market_id_cases id_fields_def dest: truthy_not_None)

text \<open>
  C6 (amended). When it filters the listings of the primary endpoint, \<^verbatim>\<open>get_item_market\<close>
  takes as a listing's identifier the first truthy value among the fields \<^verbatim>\<open>item_id\<close>,
  \<^verbatim>\<open>ID\<close> and \<^verbatim>\<open>itemID\<close>, in that order, and the value under \<^verbatim>\<open>itemID\<close> when none is
  truthy. This is the first value that is not \<^verbatim>\<open>None\<close> whenever no accepted field holds
  a falsy value other than \<^verbatim>\<open>None\<close> (zero, \<^verbatim>\<open>False\<close>, an empty string or container);
  the listings returned are then those whose first non-null identifier equals the
  requested one. A listing that has only the field \<^verbatim>\<open>ID\<close>, with a truthy value, is
  matched exactly when that value equals the requested identifier.
\<close>

theorem item_market_id_first_truthy:
  "item_market_id item =
     (case filter truthy (map (dict_get item) id_fields) of
        v # vs \<Rightarrow> v
      | [] \<Rightarrow> dict_get item ''itemID'') \<and>
   (list_all (\<lambda>f. dict_get item f = PNone \<or> truthy (dict_get item f)) id_fields \<longrightarrow>
      item_market_id item = first_non_null item id_fields) \<and>
   (map_of item ''item_id'' = None \<and> map_of item ''itemID'' = None \<and>
    map_of item ''ID'' = Some v \<and> truthy v \<longrightarrow>
      itemmarket_match n (PDict item) = py_eq_int v n) \<and>
   (map_of kvs ''itemmarket'' = Some (PList items) \<and>
    list_all (\<lambda>it. case it of
                PDict d \<Rightarrow> list_all (\<lambda>f. dict_get d f = PNone \<or> truthy (dict_get d f)) id_fields
              | _ \<Rightarrow> True) items \<longrightarrow>
      itemmarket_listings (PDict kvs) n =
        Some (filter (\<lambda>it. case it of
                        PDict d \<Rightarrow> py_eq_int (first_non_null d id_fields) n
                      | _ \<Rightarrow> False) items))"
proof (intro conjI impI)
  show "item_market_id item =
     (case filter truthy (map (dict_get item) id_fields) of
        v # vs \<Rightarrow> v
      | [] \<Rightarrow> dict_get item ''itemID'')"
    by (simp add: item_market_id_cases id_fields_def)
next
  assume "list_all (\<lambda>f. dict_get item f = PNone \<or> truthy (dict_get item f)) id_fields"
  then show "item_market_id item = first_non_null item id_fields"
    by (rule item_market_id_non_null)
next
  assume "map_of item ''item_id'' = None \<and> map_of item ''itemID'' = None \<and>
    map_of item ''ID'' = Some v \<and> truthy v"
  then show "itemmarket_match n (PDict item) = py_eq_int v n"
    by (simp add: item_market_id_cases dict_get_def dict_get_default_def)
next
  assume a: "map_of kvs ''itemmarket'' = Some (PList items) \<and>
    list_all (\<lambda>it. case it of
                PDict d \<Rightarrow> list_all (\<lambda>f. dict_get d f = PNone \<or> truthy (dict_get d f)) id_fields
              | _ \<Rightarrow> True) items"
  then have ne: "kvs \<noteq> []" by auto
  have "filter (itemmarket_match n) items =
        filter (\<lambda>it. case it of
                        PDict d \<Rightarrow> py_eq_int (first_non_null d id_fields) n
                      | _ \<Rightarrow> False) items"
  proof (rule filter_cong [OF refl])
    fix it assume "it \<in> set items"
    with a have w: "case it of
                PDict d \<Rightarrow> list_all (\<lambda>f. dict_get d f = PNone \<or> truthy (dict_get d f)) id_fields
              | _ \<Rightarrow> True"
      by (auto simp: list_all_iff)
    show "itemmarket_match n it = (case it of
                        PDict d \<Rightarrow> py_eq_int (first_non_null d id_fields) n
                      | _ \<Rightarrow> False)"
    proof (cases it)
      case (PDict d)
      with w have "item_market_id d = first_non_null d id_fields"
        by (simp add: item_market_id_non_null)
      with PDict show ?thesis by simp
    qed simp_all
  qed
  with a ne show "itemmarket_listings (PDict kvs) n =
        Some (filter (\<lambda>it. case it of
                        PDict d \<Rightarrow> py_eq_int (first_non_null d id_fields) n
                      | _ \<Rightarrow> False) items)"
    by (simp add: dict_get_default_def)
qed

theorem item_market_id_first_truthy_witness:
  "item_market_id [(''ID'', PInt 7), (''price'', PInt 100)] = PInt 7 \<and>
   first_non_null [(''ID'', PInt 7), (''price'', PInt 100)] id_fields = PInt 7 \<and>
   itemmarket_match 7 (PDict [(''ID'', PInt 7), (''price'', PInt 100)]) \<and>
   itemmarket_listings itemmarket_feed 7 = Some [PDict [(''ID'', PInt 7), (''price'', PInt 100)]]"
  using item_market_id_first_truthy [of "[(''ID'', PInt 7), (''price'', PInt 100)]" "PInt 7" 7
      "[(''itemmarket'',
             PList [PDict [(''ID'', PInt 7), (''price'', PInt 100)],
                    PDict [(''ID'', PInt 9), (''price'', PInt 5)]])]"
      "[PDict [(''ID'', PInt 7), (''price'', PInt 100)],
                    PDict [(''ID'', PInt 9), (''price'', PInt 5)]]"]
  by (simp add: id_fields_def dict_get_def dict_get_default_def itemmarket_feed_def
      item_market_id_def py_or_def)

text \<open>
  The claim as stated fails on falsy identifiers: a listing with \<^verbatim>\<open>item_id\<close> 0 and
  \<^verbatim>\<open>ID\<close> 7 has the first non-null identifier 0 and is matched for the item 7, and a
  listing that has only \<^verbatim>\<open>ID\<close> 0 is not matched for the item 0.
\<close>

theorem item_market_id_falsy_counterexample:
  "first_non_null [(''item_id'', PInt 0), (''ID'', PInt 7)] id_fields = PInt 0 \<and>
   item_market_id [(''item_id'', PInt 0), (''ID'', PInt 7)] = PInt 7 \<and>
   itemmarket_match 7 (PDict [(''item_id'', PInt 0), (''ID'', PInt 7)]) \<and>
   first_non_null [(''ID'', PInt 0)] id_fields = PInt 0 \<and>
   \<not> itemmarket_match 0 (PDict [(''ID'', PInt 0)])"
  by (simp add: id_fields_def dict_get_def dict_get_default_def item_market_id_def py_or_def)

lemma make_request_sent:
  assumes "api_key s = Some k" "k \<noteq> []" "0 < capacity (rate_limiter s)"
  shows "\<exists>v p s'. make_request E s ep params = Some ((v, p), s') \<and>
           map snd (sent s') = map snd (sent s) @ [(request_url s ep, request_params params k)] \<and>
           api_key s' = api_key s \<and> base_url s' = base_url s \<and>
           capacity (rate_limiter s') = capacity (rate_limiter s)"
proof -
  let ?url = "request_url s ep"
  let ?q = "request_params params k"
  let ?out = "respond E (length (sent s)) (?url, ?q)"
  from make_request_run [OF assms, of E ep params] obtain s1 where
    m: "make_request E s ep params =
          Some (handle_request_error ?url (map_option (\<lambda>_. ?q) params) (classify ?url ?out s1))"
    and fr1: "map snd (sent s1) = map snd (sent s) @ [(?url, ?q)]"
      "api_key s1 = api_key s" "base_url s1 = base_url s"
      "capacity (rate_limiter s1) = capacity (rate_limiter s)"
    by blast
  obtain r s2 where c: "classify ?url ?out s1 = (r, s2)"
    by (cases "classify ?url ?out s1")
  obtain v p s3 where h: "handle_request_error ?url (map_option (\<lambda>_. ?q) params) (r, s2) = ((v, p), s3)"
    by (cases "handle_request_error ?url (map_option (\<lambda>_. ?q) params) (r, s2)") auto
  have eq: "make_request E s ep params = Some ((v, p), s3)"
    by (simp only: m c h)
  from classify_frame [OF c] handle_request_error_frame [OF h] fr1
  have "map snd (sent s3) = map snd (sent s) @ [(?url, ?q)]"
    "api_key s3 = api_key s" "base_url s3 = base_url s"
    "capacity (rate_limiter s3) = capacity (rate_limiter s)"
    by simp_all
  with eq show ?thesis by blast
qed





lemma market_fallback_sent: "sent (snd (market_fallback d n s)) = sent s"
  by (auto simp: market_fallback_def log_msg_def split: sum.splits option.splits list.splits)

lemma market_fallback_empty:
  "bazaar_listings d n = Inr None \<or> bazaar_listings d n = Inr (Some []) \<or>
   bazaar_listings d n = Inl e \<Longrightarrow> fst (market_fallback d n s) = PList []"
  by (auto simp: market_fallback_def)


lemma get_item_market_secondary:
  assumes "make_request E s ''itemmarket'' (Some []) = Some ((d, p), s1)"
    and "itemmarket_listings d n = None \<or> itemmarket_listings d n = Some []"
    and "make_request E s1 ''market'' (Some [(''selections'', ''bazaar'')]) = Some ((d2, p2), s2)"
  shows "get_item_market E s n = Some (market_fallback d2 n s2)"
  using assms by (auto simp: get_item_market_def)










lemma itemmarket_listings_match:
  "itemmarket_listings d n = Some ls \<Longrightarrow> list_all (itemmarket_match n) ls"
  by (cases d) (auto simp: list_all_iff split: if_splits pyval.splits)

lemma bazaar_listings_match:
  "bazaar_listings d n = Inr (Some ls) \<Longrightarrow> list_all (bazaar_match n) ls"
  by (auto simp: bazaar_listings_def list_all_iff split: if_splits sum.splits bool.splits)

lemma market_fallback_match:
  "market_fallback d n s = (PList ls, s') \<Longrightarrow> list_all (bazaar_match n) ls"
  by (auto simp: market_fallback_def split: sum.splits option.splits list.splits
      dest!: bazaar_listings_match)

text \<open>
  C7. \<^verbatim>\<open>get_item_market\<close> always returns a list, never \<^verbatim>\<open>None\<close>, once the limiter grants
  its requests; the list holds only listings that match the requested identifier. When
  the first request yields no matching listing and the second yields none either, or an
  exception is raised while its payload is read, the empty list is returned.
\<close>

theorem get_item_market_returns_list:
  assumes "0 < capacity (rate_limiter s)"
  shows "(\<exists>ls s'. get_item_market E s n = Some (PList ls, s') \<and>
            list_all (\<lambda>l. itemmarket_match n l \<or> bazaar_match n l) ls) \<and>
         (make_request E s ''itemmarket'' (Some []) = Some ((d1, p1), s1) \<and>
          (itemmarket_listings d1 n = None \<or> itemmarket_listings d1 n = Some []) \<and>
          make_request E s1 ''market'' (Some [(''selections'', ''bazaar'')]) = Some ((d2, p2), s2) \<and>
          (bazaar_listings d2 n = Inr None \<or> bazaar_listings d2 n = Inr (Some []) \<or>
           bazaar_listings d2 n = Inl e) \<longrightarrow>
            returned (get_item_market E s n) = Some (PList []))"
proof (intro conjI impI)
  from make_request_returns [OF assms, of E "''itemmarket''" "Some []"]
  obtain v p t1 where 1: "make_request E s ''itemmarket'' (Some []) = Some ((v, p), t1)"
    and c: "capacity (rate_limiter t1) = capacity (rate_limiter s)" by blast
  from c assms have "0 < capacity (rate_limiter t1)" by simp
  from make_request_returns [OF this, of E "''market''" "Some [(''selections'', ''bazaar'')]"]
  obtain v2 p2 t2 where 2: "make_request E t1 ''market'' (Some [(''selections'', ''bazaar'')]) = Some ((v2, p2), t2)"
    by blast
  show "\<exists>ls s'. get_item_market E s n = Some (PList ls, s') \<and>
            list_all (\<lambda>l. itemmarket_match n l \<or> bazaar_match n l) ls"
  proof (cases "itemmarket_listings v n = None \<or> itemmarket_listings v n = Some []")
    case True
    from get_item_market_secondary [OF 1 True 2]
    have g: "get_item_market E s n = Some (market_fallback v2 n t2)" .
    from market_fallback_list [of v2 n t2] obtain ls s' where
      f: "market_fallback v2 n t2 = (PList ls, s')" by blast
    from market_fallback_match [OF f] have "list_all (\<lambda>l. itemmarket_match n l \<or> bazaar_match n l) ls"
      by (simp add: list_all_iff)
    with g f show ?thesis by simp
  next
    case False
    then obtain l ls where l: "itemmarket_listings v n = Some (l # ls)"
      by (cases "itemmarket_listings v n"; cases "the (itemmarket_listings v n)") auto
    from itemmarket_listings_match [OF l]
    have "list_all (\<lambda>l. itemmarket_match n l \<or> bazaar_match n l) (l # ls)"
      by (simp add: list_all_iff)
    then show ?thesis
      using 1 l by (simp add: get_item_market_def)
  qed
next
  assume a: "make_request E s ''itemmarket'' (Some []) = Some ((d1, p1), s1) \<and>
          (itemmarket_listings d1 n = None \<or> itemmarket_listings d1 n = Some []) \<and>
          make_request E s1 ''market'' (Some [(''selections'', ''bazaar'')]) = Some ((d2, p2), s2) \<and>
          (bazaar_listings d2 n = Inr None \<or> bazaar_listings d2 n = Inr (Some []) \<or>
           bazaar_listings d2 n = Inl e)"
  then have g: "get_item_market E s n = Some (market_fallback d2 n s2)"
    using get_item_market_secondary by blast
  from a have "fst (market_fallback d2 n s2) = PList []"
    using market_fallback_empty by blast
  then show "returned (get_item_market E s n) = Some (PList [])"
    by (simp add: g returned_def)
qed

theorem get_item_market_returns_list_witness:
  "returned (get_item_market (const_env (Response 200 (Inr (PDict [(''bazaar'', PInt 5)]))))
      demo_state 7) = Some (PList []) \<and>
   log_after (get_item_market (const_env (Response 200 (Inr (PDict [(''bazaar'', PInt 5)]))))
      demo_state 7) =
     [(ERROR, [Lit ''Error getting item market for '', Num 7, Lit '': '', Exn TypeError])]"
proof -
  have c: "0 < capacity (rate_limiter demo_state)"
    by (simp add: demo_state_def init_def RateLimiter_def demo_config_def)
  show ?thesis
    using get_item_market_returns_list [OF c, of "const_env (Response 200 (Inr (PDict [(''bazaar'', PInt 5)])))" 7]
    by (simp add: get_item_market_def run_defs dict_get_default_def market_fallback_def
        bazaar_listings_def)
qed

section \<open>The session manager\<close>

lemma live_handles_set:
  "set (live_handles s) = {h. h < length (handles s) \<and> \<not> is_closed (handles s ! h)}"
  by (auto simp: live_handles_def)

lemma live_handles_distinct: "distinct (live_handles s)"
  by (simp add: live_handles_def)

lemma list_of_singleton:
  assumes "distinct xs" "set xs = {a}"
  shows "xs = [a]"
proof (cases xs)
  case Nil
  with assms show ?thesis by simp
next
  case (Cons x ys)
  with assms have x: "x = a" by auto
  from Cons assms x have "a \<notin> set ys" "set ys \<subseteq> {a}" by auto
  then have "ys = []" by (cases ys) auto
  with Cons x show ?thesis by simp
qed

lemma live_handles_single:
  assumes "h < length (handles s)" "\<not> is_closed (handles s ! h)"
    and "\<And>i. i < length (handles s) \<Longrightarrow> \<not> is_closed (handles s ! i) \<Longrightarrow> i = h"
  shows "live_handles s = [h]"
proof (rule list_of_singleton [OF live_handles_distinct])
  have "h \<in> set (live_handles s)"
    using assms(1,2) by (simp add: live_handles_set)
  moreover have "i = h" if "i \<in> set (live_handles s)" for i
    using that assms(3) by (simp add: live_handles_set)
  ultimately show "set (live_handles s) = {h}" by blast
qed

lemma live_handles_none:
  assumes "\<And>i. i < length (handles s) \<Longrightarrow> is_closed (handles s ! i)"
  shows "live_handles s = []"
  using assms by (simp add: live_handles_def filter_empty_conv)

lemma session_inv_iff:
  "session_inv s \<longleftrightarrow>
     (\<forall>h. session s = Some h \<longrightarrow> h < length (handles s)) \<and>
     (\<forall>i. i < length (handles s) \<longrightarrow> \<not> is_closed (handles s ! i) \<longrightarrow> session s = Some i)"
  by (auto simp: session_inv_def list_all_iff live_handles_set split: option.splits)

lemma session_inv_bound: "session_inv s \<Longrightarrow> session s = Some h \<Longrightarrow> h < length (handles s)"
  unfolding session_inv_iff by blast

lemma session_inv_live:
  "session_inv s \<Longrightarrow> i < length (handles s) \<Longrightarrow> \<not> is_closed (handles s ! i) \<Longrightarrow>
     session s = Some i"
  unfolding session_inv_iff by blast

lemma session_inv_init: "session_inv (init c t) \<and> live_handles (init c t) = []"
  by (simp add: session_inv_def live_handles_def init_def)

text \<open>A handle is created exactly when none is cached or the cached one is closed.\<close>

lemma get_session_reuse:
  "session s = Some h \<Longrightarrow> \<not> handle_closed s h \<Longrightarrow> get_session s = (h, s)"
  by (simp add: get_session_def)

lemma get_session_create:
  "session s = None \<or> (\<exists>h. session s = Some h \<and> handle_closed s h) \<Longrightarrow>
     get_session s =
       (length (handles s),
        s\<lparr>handles := handles s @
             [\<lparr>is_closed = False, timeout_total = REQUEST_TIMEOUT (cfg s),
               user_agent = USER_AGENT (cfg s)\<rparr>],
           session := Some (length (handles s))\<rparr>)"
  by (auto simp: get_session_def)

lemma get_session_live:
  assumes "session_inv s"
  shows "session (snd (get_session s)) = Some (fst (get_session s)) \<and>
         fst (get_session s) < length (handles (snd (get_session s))) \<and>
         \<not> is_closed (handles (snd (get_session s)) ! fst (get_session s)) \<and>
         live_handles (snd (get_session s)) = [fst (get_session s)] \<and>
         session_inv (snd (get_session s))"
proof (cases "session s = None \<or> (\<exists>h. session s = Some h \<and> handle_closed s h)")
  case True
  let ?new = "\<lparr>is_closed = False, timeout_total = REQUEST_TIMEOUT (cfg s),
               user_agent = USER_AGENT (cfg s)\<rparr>"
  let ?s' = "s\<lparr>handles := handles s @ [?new], session := Some (length (handles s))\<rparr>"
  have g: "get_session s = (length (handles s), ?s')"
    by (rule get_session_create [OF True])
  have old: "is_closed (handles s ! i)" if "i < length (handles s)" for i
  proof (rule ccontr)
    assume op: "\<not> is_closed (handles s ! i)"
    with assms that have "session s = Some i" by (rule session_inv_live)
    with True that op show False by (simp add: handle_closed_def)
  qed
  have a1: "length (handles s) < length (handles ?s')" by simp
  have a2: "\<not> is_closed (handles ?s' ! length (handles s))" by simp
  have a3: "j = length (handles s)"
    if j: "j < length (handles ?s')" "\<not> is_closed (handles ?s' ! j)" for j
  proof (rule ccontr)
    assume "j \<noteq> length (handles s)"
    with j(1) have lt: "j < length (handles s)" by simp
    with j(2) have "\<not> is_closed (handles s ! j)" by (simp add: nth_append)
    with old [OF lt] show False by simp
  qed
  have l: "live_handles ?s' = [length (handles s)]"
    using a1 a2 a3 by (rule live_handles_single)
  have i: "session_inv ?s'"
    by (simp add: session_inv_def l)
  have 1: "fst (get_session s) = length (handles s)" "snd (get_session s) = ?s'"
    by (simp_all add: g)
  show ?thesis
    unfolding 1 using l i by simp
next
  case False
  then obtain h where h: "session s = Some h" "\<not> handle_closed s h" by auto
  then have g: "get_session s = (h, s)" by (simp add: get_session_reuse)
  from session_inv_bound [OF assms h(1)] have b1: "h < length (handles s)" .
  with h(2) have b2: "\<not> is_closed (handles s ! h)" by (simp add: handle_closed_def)
  have "live_handles s = [h]"
  proof (rule live_handles_single [OF b1 b2])
    fix i assume "i < length (handles s)" "\<not> is_closed (handles s ! i)"
    with assms have "session s = Some i" by (rule session_inv_live)
    with h(1) show "i = h" by simp
  qed
  have 1: "fst (get_session s) = h" "snd (get_session s) = s"
    by (simp_all add: g)
  show ?thesis
    unfolding 1 using h(1) b1 b2 \<open>live_handles s = [h]\<close> assms by simp
qed

lemma close_live:
  assumes "session_inv s"
  shows "live_handles (close s) = [] \<and> session_inv (close s) \<and>
         session (close s) = session s \<and> length (handles (close s)) = length (handles s) \<and>
         cfg (close s) = cfg s"
proof -
  have fr: "session (close s) = session s" "length (handles (close s)) = length (handles s)"
    "cfg (close s) = cfg s"
    by (auto simp: close_def split: option.splits)
  have "is_closed (handles (close s) ! i)" if "i < length (handles (close s))" for i
  proof (cases "session s")
    case None
    from that fr have lt: "i < length (handles s)" by simp
    have "is_closed (handles s ! i)"
    proof (rule ccontr)
      assume "\<not> is_closed (handles s ! i)"
      with assms lt have "session s = Some i" by (rule session_inv_live)
      with None show False by simp
    qed
    with None show ?thesis by (simp add: close_def)
  next
    case (Some h)
    with assms have hb: "h < length (handles s)" by (simp add: session_inv_bound)
    show ?thesis
    proof (cases "i = h")
      case True
      with Some hb show ?thesis
        by (auto simp: close_def handle_closed_def)
    next
      case False
      from that fr have lt: "i < length (handles s)" by simp
      have "is_closed (handles s ! i)"
      proof (rule ccontr)
        assume "\<not> is_closed (handles s ! i)"
        with assms lt have "session s = Some i" by (rule session_inv_live)
        with Some False show False by simp
      qed
      with False Some show ?thesis
        by (simp add: close_def)
    qed
  qed
  then have l: "live_handles (close s) = []" by (rule live_handles_none)
  have "session_inv (close s)"
    using assms fr by (simp add: session_inv_def l split: option.splits)
  with l fr show ?thesis by simp
qed

lemma get_session_after_close:
  assumes "session_inv s"
  shows "fst (get_session (close s)) = length (handles s) \<and>
         live_handles (snd (get_session (close s))) = [length (handles s)]"
proof -
  from close_live [OF assms] have c: "live_handles (close s) = []" "session_inv (close s)"
    "length (handles (close s)) = length (handles s)" by simp_all
  have "session (close s) = None \<or> (\<exists>h. session (close s) = Some h \<and> handle_closed (close s) h)"
  proof (cases "session (close s)")
    case (Some h)
    with c(2) have "h < length (handles (close s))" by (simp add: session_inv_bound)
    moreover from this c(1) have "is_closed (handles (close s) ! h)"
      using live_handles_set [of "close s"] by auto
    ultimately show ?thesis using Some by (simp add: handle_closed_def)
  qed simp
  from get_session_create [OF this] have "fst (get_session (close s)) = length (handles s)"
    by (simp add: c)
  with get_session_live [OF c(2)] show ?thesis by simp
qed


lemma session_inv_cong:
  "session s' = session s \<Longrightarrow> handles s' = handles s \<Longrightarrow>
     session_inv s' = session_inv s \<and> live_handles s' = live_handles s"
  by (simp add: session_inv_def live_handles_def cong: option.case_cong)

lemma send_session_inv:
  assumes "session_inv s" "send E s url ps = (out, s')"
  shows "session_inv s' \<and> length (live_handles s') = 1"
proof -
  let ?s1 = "snd (get_session s)"
  from assms(2) have "session s' = session ?s1" "handles s' = handles ?s1"
    by (auto simp: send_def Let_def split: prod.splits)
  from session_inv_cong [OF this] get_session_live [OF assms(1)]
  show ?thesis by simp
qed

lemma make_request_session_inv:
  assumes "session_inv s" "make_request E s ep ps = Some (r, s')"
  shows "session_inv s' \<and> length (live_handles s') \<le> 1"
proof (cases "no_key s")
  case True
  with assms(2) have "session s' = session s" "handles s' = handles s"
    by (auto simp: make_request_unkeyed log_msg_def)
  from session_inv_cong [OF this] assms(1) have i: "session_inv s'" "live_handles s' = live_handles s"
    by simp_all
  have "length (live_handles s) \<le> 1"
  proof (cases "session s")
    case None
    have "live_handles s = []"
    proof (rule live_handles_none, rule ccontr)
      fix i assume "i < length (handles s)" "\<not> is_closed (handles s ! i)"
      with assms(1) have "session s = Some i" by (rule session_inv_live)
      with None show False by simp
    qed
    then show ?thesis by simp
  next
    case (Some h)
    have "set (live_handles s) \<subseteq> {h}"
      using session_inv_live [OF assms(1)] Some by (auto simp: live_handles_set)
    then have "card (set (live_handles s)) \<le> card {h}"
      by (intro card_mono) simp_all
    then show ?thesis
      by (simp add: distinct_card [OF live_handles_distinct])
  qed
  with i show ?thesis by simp
next
  case False
  then obtain k where k: "api_key s = Some k" "k \<noteq> []"
    by (auto simp: no_key_iff)
  from assms(2) False k obtain t l where
    a: "acquire (clock s) (rate_limiter s) = Some (t, l)"
    by (auto simp: make_request_def split: option.splits)
  let ?s0 = "s\<lparr>rate_limiter := l, clock := t\<rparr>"
  let ?url = "request_url s ep"
  let ?q = "request_params ps k"
  obtain out s1 where d: "send E ?s0 ?url ?q = (out, s1)"
    by (cases "send E ?s0 ?url ?q")
  obtain x s2 where c: "classify ?url out s1 = (x, s2)"
    by (cases "classify ?url out s1")
  obtain v p s3 where h: "handle_request_error ?url (map_option (\<lambda>_. ?q) ps) (x, s2) = ((v, p), s3)"
    by (cases "handle_request_error ?url (map_option (\<lambda>_. ?q) ps) (x, s2)") auto
  have "make_request E s ep ps = Some ((v, p), s3)"
    using False k by (simp add: make_request_def a Let_def dispatch_def d c h)
  with assms(2) have s': "s' = s3" by simp
  have "session_inv ?s0"
    using session_inv_cong [of ?s0 s] assms(1) by simp
  from send_session_inv [OF this d] have "session_inv s1" "length (live_handles s1) = 1"
    by simp_all
  moreover from classify_frame [OF c] handle_request_error_frame [OF h]
  have "session s3 = session s1" "handles s3 = handles s1" by simp_all
  ultimately show ?thesis
    using session_inv_cong [of s3 s1] by (simp add: s')
qed

text \<open>
  C8. The session manager keeps at most one live handle. In a state where the cached
  handle exists and every other handle is closed (as after \<^verbatim>\<open>__init__\<close>, and after every
  call of the client), \<^verbatim>\<open>_get_session\<close> returns the cached handle, unchanged, when there
  is one and it is open; when there is none or it is closed, it creates a handle that
  is not among the existing ones, caches it and returns it. The handle returned is
  never closed and is the only live one; calling again returns the same handle. After
  \<^verbatim>\<open>close\<close> no handle is live, and the next \<^verbatim>\<open>_get_session\<close> returns a new handle,
  distinct from the closed one. \<^verbatim>\<open>_make_request\<close> keeps the invariant.
\<close>

theorem get_session_single_live_handle:
  assumes "session_inv s"
  shows "(\<forall>h. session s = Some h \<and> \<not> handle_closed s h \<longrightarrow> get_session s = (h, s)) \<and>
         (session s = None \<or> (\<exists>h. session s = Some h \<and> handle_closed s h) \<longrightarrow>
            fst (get_session s) = length (handles s) \<and>
            handles (snd (get_session s)) =
              handles s @ [\<lparr>is_closed = False, timeout_total = REQUEST_TIMEOUT (cfg s),
                           user_agent = USER_AGENT (cfg s)\<rparr>]) \<and>
         session (snd (get_session s)) = Some (fst (get_session s)) \<and>
         \<not> handle_closed (snd (get_session s)) (fst (get_session s)) \<and>
         live_handles (snd (get_session s)) = [fst (get_session s)] \<and>
         session_inv (snd (get_session s)) \<and>
         get_session (snd (get_session s)) = get_session s \<and>
         live_handles (close s) = [] \<and>
         session_inv (close s) \<and>
         fst (get_session (close s)) = length (handles s) \<and>
         session s \<noteq> Some (fst (get_session (close s))) \<and>
         live_handles (snd (get_session (close s))) = [length (handles s)] \<and>
         (\<forall>r s'. make_request E s ep ps = Some (r, s') \<longrightarrow>
            session_inv s' \<and> length (live_handles s') \<le> 1)"
proof -
  note l = get_session_live [OF assms]
  have 1: "\<forall>h. session s = Some h \<and> \<not> handle_closed s h \<longrightarrow> get_session s = (h, s)"
    by (simp add: get_session_reuse)
  have 2: "session s = None \<or> (\<exists>h. session s = Some h \<and> handle_closed s h) \<longrightarrow>
            fst (get_session s) = length (handles s) \<and>
            handles (snd (get_session s)) =
              handles s @ [\<lparr>is_closed = False, timeout_total = REQUEST_TIMEOUT (cfg s),
                           user_agent = USER_AGENT (cfg s)\<rparr>]"
    using get_session_create [of s] by auto
  have 3: "\<not> handle_closed (snd (get_session s)) (fst (get_session s))"
    using l by (simp add: handle_closed_def)
  have 4: "get_session (snd (get_session s)) = get_session s"
    using get_session_reuse [of "snd (get_session s)" "fst (get_session s)"] l 3
    by simp
  note c = close_live [OF assms] get_session_after_close [OF assms]
  have 5: "session s \<noteq> Some (fst (get_session (close s)))"
    using session_inv_bound [OF assms, of "length (handles s)"] c by auto
  have 6: "\<forall>r s'. make_request E s ep ps = Some (r, s') \<longrightarrow>
            session_inv s' \<and> length (live_handles s') \<le> 1"
    using make_request_session_inv [OF assms] by blast
  from l 1 2 3 4 5 6 c show ?thesis by simp
qed

theorem get_session_single_live_handle_witness:
  "session_inv demo_state \<and>
   fst (get_session demo_state) = 0 \<and>
   live_handles (snd (get_session demo_state)) = [0] \<and>
   fst (get_session (snd (get_session demo_state))) = 0 \<and>
   live_handles (close (snd (get_session demo_state))) = [] \<and>
   fst (get_session (close (snd (get_session demo_state)))) = 1 \<and>
   live_handles (snd (get_session (close (snd (get_session demo_state))))) = [1]"
proof -
  have i: "session_inv demo_state"
    by (simp add: demo_state_def session_inv_init)
  have n: "session demo_state = None" "handles demo_state = []"
    by (simp_all add: demo_state_def init_def)
  note t0 = get_session_single_live_handle [OF i]
  from t0 have i1: "session_inv (snd (get_session demo_state))" by blast
  note t1 = get_session_single_live_handle [OF i1]
  have len: "length (handles (snd (get_session demo_state))) = 1"
    using t0 n by simp
  show ?thesis
    using i t0 t1 n len by simp
qed

section \<open>The key in requests and in the log\<close>

text \<open>
  What the pipeline logs for an outcome: the earlier log and at most one new record,
  whose only URL is the one it was given.
\<close>

lemma pipeline_log:
  "\<exists>es. (\<forall>a p. logged (snd (handle_request_error url p (classify url out a))) = logged a @ es) \<and>
        (\<forall>e \<in> set es. \<forall>u. Str u \<in> set (snd e) \<longrightarrow> u = url)"
proof (cases out)
  case (Raises e)
  show ?thesis
  proof (cases e)
    case TimeoutError
    with Raises show ?thesis
      by (intro exI [of _ "[(ERROR, [Lit ''Timeout for API request to '', Str url])]"])
        (simp add: log_msg_def)
  qed (use Raises in \<open>intro exI [of _ "[(ERROR, [Lit ''Error making API request to '', Str url,
          Lit '': '', Exn e])]"], simp add: log_msg_def\<close>)+
next
  case (Response status body)
  show ?thesis
  proof (cases "status = 200")
    case False
    with Response show ?thesis
      by (intro exI [of _ "[(ERROR, [Lit ''HTTP error '', Num status, Lit '' for '', Str url])]"])
        (simp add: log_msg_def)
  next
    case True
    have r: "\<exists>es. (\<forall>a p. logged (snd (handle_request_error url p (Inl e, a))) = logged a @ es) \<and>
        (\<forall>x \<in> set es. \<forall>u. Str u \<in> set (snd x) \<longrightarrow> u = url)" for e
    proof (cases e)
      case TimeoutError
      then show ?thesis
        by (intro exI [of _ "[(ERROR, [Lit ''Timeout for API request to '', Str url])]"])
          (simp add: log_msg_def)
    qed (intro exI [of _ "[(ERROR, [Lit ''Error making API request to '', Str url,
          Lit '': '', Exn e])]"], simp add: log_msg_def)+
    show ?thesis
    proof (cases body)
      case (Inl e)
      with Response True r [of e] show ?thesis by simp
    next
      case (Inr data)
      show ?thesis
      proof (cases "py_in ''error'' data")
        case (Inl e)
        with Response True Inr r [of e] show ?thesis by simp
      next
        case inr: (Inr b)
        show ?thesis
        proof (cases b)
          case False
          with Response True Inr inr show ?thesis
            by (intro exI [of _ "[]"]) simp
        next
          case t: True
          show ?thesis
          proof (cases "py_subscript data ''error''")
            case (Inl e)
            with Response True Inr inr t r [of e] show ?thesis by simp
          next
            case v: (Inr v)
            with Response True Inr inr t show ?thesis
              by (intro exI [of _ "[(ERROR, [Lit ''API error: '', Val v])]"])
                (simp add: log_msg_def)
          qed
        qed
      qed
    qed
  qed
qed

lemma request_log:
  assumes "api_key s = Some k" "k \<noteq> []" "0 < capacity (rate_limiter s)"
  shows "\<exists>a p. log_after (request_result E s ep params) =
           logged (snd (handle_request_error (request_url s ep) p
             (classify (request_url s ep)
                (respond E (length (sent s)) (request_url s ep, request_params params k)) a))) \<and>
           logged a = logged s"
proof -
  from make_request_run [OF assms, of E ep params] obtain s1 where
    m: "make_request E s ep params =
          Some (handle_request_error (request_url s ep)
                  (map_option (\<lambda>_. request_params params k) params)
                  (classify (request_url s ep)
                     (respond E (length (sent s)) (request_url s ep, request_params params k))
                     s1))"
    and l: "logged s1 = logged s"
    by blast
  have "log_after (request_result E s ep params) =
           logged (snd (handle_request_error (request_url s ep)
             (map_option (\<lambda>_. request_params params k) params)
             (classify (request_url s ep)
                (respond E (length (sent s)) (request_url s ep, request_params params k)) s1)))"
    by (simp add: request_result_def m log_after_def split: prod.splits)
  with l show ?thesis by blast
qed

lemma request_sent:
  assumes "api_key s = Some k" "k \<noteq> []" "0 < capacity (rate_limiter s)"
  shows "requests_after (request_result E s ep params) =
           map snd (sent s) @ [(request_url s ep, request_params params k)]"
  using make_request_sent [OF assms, of E ep params]
  by (auto simp: request_result_def requests_after_def)


text \<open>
  The key is put into the query parameters before dispatch, under the single entry
  \<^verbatim>\<open>key\<close>: in exactly one entry when the caller's mapping has distinct keys. A call logs
  at most one record, and the only URL in it is the one built from base URL and
  endpoint, without the query parameters.
\<close>

lemma key_injected_once:
  assumes "api_key s = Some k" "k \<noteq> []" "0 < capacity (rate_limiter s)"
  shows "requests_after (request_result E s endpoint params) =
           map snd (sent s) @ [(request_url s endpoint, request_params params k)] \<and>
         map_of (request_params params k) ''key'' = Some k \<and>
         (distinct (map fst (case params of None \<Rightarrow> [] | Some p \<Rightarrow> p)) \<longrightarrow>
            length (filter (\<lambda>e. fst e = ''key'') (request_params params k)) = 1) \<and>
         (\<exists>es. log_after (request_result E s endpoint params) = logged s @ es \<and>
               (\<forall>e \<in> set es. \<forall>u. Str u \<in> set (snd e) \<longrightarrow> u = request_url s endpoint))"
proof (intro conjI impI)
  show "requests_after (request_result E s endpoint params) =
           map snd (sent s) @ [(request_url s endpoint, request_params params k)]"
    by (rule request_sent [OF assms])
  show "map_of (request_params params k) ''key'' = Some k"
    by (simp add: request_params_def map_of_dict_set)
  show "length (filter (\<lambda>e. fst e = ''key'') (request_params params k)) = 1"
    if "distinct (map fst (case params of None \<Rightarrow> [] | Some p \<Rightarrow> p))"
    using that by (simp add: request_params_def dict_set_count)
  let ?url = "request_url s endpoint"
  let ?out = "respond E (length (sent s)) (?url, request_params params k)"
  from pipeline_log [of ?url ?out] obtain es where
    es: "\<And>a p. logged (snd (handle_request_error ?url p (classify ?url ?out a))) = logged a @ es"
    and u: "\<forall>e \<in> set es. \<forall>u. Str u \<in> set (snd e) \<longrightarrow> u = ?url"
    by blast
  from request_log [OF assms, of E endpoint params]
  have l: "log_after (request_result E s endpoint params) = logged s @ es"
    by (auto simp: es)
  with u show "\<exists>es. log_after (request_result E s endpoint params) = logged s @ es \<and>
               (\<forall>e \<in> set es. \<forall>u. Str u \<in> set (snd e) \<longrightarrow> u = request_url s endpoint)"
    by blast
qed

text \<open>
  C9. The key is to be injected once and never to appear in a logged message. The code
  injects it once, and on a timeout and on a non-200 status it logs only the URL without
  the query parameters; but the handler of the other exceptions logs the text of the
  exception, and the exception that decoding raises on a response of an unexpected
  content type quotes the requested URL with its query string. With the key \<^verbatim>\<open>s3cr3t\<close>
  and such a response to a request for \<^verbatim>\<open>user/1\<close>, the key is in the log.
\<close>

theorem key_logged_with_exception_text:
  "requests_after
     (request_result (const_env (Response 200 (Inl content_type_error))) demo_state ''user/1'' None) =
     [(''https://api.torn.com/user/1'', [(''key'', ''s3cr3t'')])] \<and>
   log_after
     (request_result (const_env (Response 200 (Inl content_type_error))) demo_state ''user/1'' None) =
     [(ERROR, [Lit ''Error making API request to '', Str ''https://api.torn.com/user/1'',
               Lit '': '', Exn content_type_error])] \<and>
   key_in_log ''s3cr3t''
     (log_after
        (request_result (const_env (Response 200 (Inl content_type_error))) demo_state
           ''user/1'' None)) \<and>
   \<not> key_in_log ''s3cr3t''
     (log_after (request_result (const_env (Raises TimeoutError)) demo_state ''user/1'' None)) \<and>
   \<not> key_in_log ''s3cr3t''
     (log_after
        (request_result (const_env (Response 500 (Inr error_payload))) demo_state ''user/1'' None))"
  by (simp add: run_defs content_type_error_def key_in_log_def str_int_def)

section \<open>The rate limiter\<close>

text \<open>
  The invariant of the limiter: the times of the acquisitions are in order, newest
  first, and an acquisition and the one \<open>capacity\<close> acquisitions later are at least a
  window apart.
\<close>

lemma acquire_step:
  assumes s: "sorted_wrt (\<ge>) (grants l)"
    and sp: "\<And>i. i + nat (capacity l) < length (grants l) \<Longrightarrow>
               grants l ! (i + nat (capacity l)) + window l \<le> grants l ! i"
    and a: "acquire now l = Some (t, l')"
  shows "l' = l\<lparr>grants := t # grants l\<rparr>" "now \<le> t" "sorted_wrt (\<ge>) (grants l')"
    "\<And>i. i + nat (capacity l') < length (grants l') \<Longrightarrow>
               grants l' ! (i + nat (capacity l')) + window l' \<le> grants l' ! i"
proof -
  let ?c = "nat (capacity l)"
  let ?t0 = "case grants l of [] \<Rightarrow> now | g # _ \<Rightarrow> max now g"
  from a have pos: "0 < capacity l"
    by (auto simp: acquire_def split: if_splits)
  then have c1: "1 \<le> ?c" by simp
  from a pos have t: "t = (if ?c \<le> length (grants l)
                 then max ?t0 (grants l ! (?c - 1) + window l) else ?t0)"
    and l': "l' = l\<lparr>grants := t # grants l\<rparr>"
    by (auto simp: acquire_def Let_def)
  show "l' = l\<lparr>grants := t # grants l\<rparr>" by (rule l')
  have t0: "now \<le> ?t0" by (simp split: list.splits)
  have tt0: "?t0 \<le> t" by (simp add: t)
  from t0 tt0 show "now \<le> t" by (rule order_trans)
  have hd: "g \<le> ?t0" if "g \<in> set (grants l)" for g
  proof (cases "grants l")
    case Nil
    with that show ?thesis by simp
  next
    case (Cons x xs)
    with s that have "g \<le> x" by auto
    with Cons show ?thesis by simp
  qed
  show "sorted_wrt (\<ge>) (grants l')"
    using s hd tt0 by (auto simp: l' intro: order_trans)
  show "grants l' ! (i + nat (capacity l')) + window l' \<le> grants l' ! i"
    if i: "i + nat (capacity l') < length (grants l')" for i
  proof (cases i)
    case 0
    with i have le: "?c \<le> length (grants l)" by (simp add: l')
    with c1 have "(t # grants l) ! ?c = grants l ! (?c - 1)"
      by (cases ?c) simp_all
    moreover from le have "grants l ! (?c - 1) + window l \<le> t" by (simp add: t)
    ultimately show ?thesis by (simp add: l' 0)
  next
    case (Suc j)
    with i have "j + ?c < length (grants l)" by (simp add: l')
    from sp [OF this] show ?thesis by (simp add: l' Suc)
  qed
qed

text \<open>Under the invariant a window holds at most \<open>c\<close> acquisitions.\<close>

lemma window_bound:
  fixes gs :: "nat list"
  assumes s: "sorted_wrt (\<ge>) gs"
    and sp: "\<And>i. i + c < length gs \<Longrightarrow> gs ! (i + c) + w \<le> gs ! i"
    and c: "0 < c"
  shows "length (filter (\<lambda>g. t \<le> g \<and> g < t + w) gs) \<le> c"
proof (rule ccontr)
  let ?I = "{i. i < length gs \<and> (t \<le> gs ! i \<and> gs ! i < t + w)}"
  assume "\<not> length (filter (\<lambda>g. t \<le> g \<and> g < t + w) gs) \<le> c"
  then have big: "c < card ?I" by (simp add: length_filter_conv_card)
  have fin: "finite ?I" by simp
  have ne: "?I \<noteq> {}"
  proof
    assume "?I = {}"
    then have "card ?I = 0" by (simp only: card.empty)
    with big show False by simp
  qed
  let ?a = "Min ?I" and ?b = "Max ?I"
  from fin ne have a: "?a \<in> ?I" and b: "?b \<in> ?I" by (rule Min_in, rule Max_in)
  have "?I \<subseteq> {?a..?b}" using fin by auto
  then have "card ?I \<le> card {?a..?b}" by (rule card_mono [OF finite_atLeastAtMost])
  with big have far: "?a + c \<le> ?b" by simp
  from b have bl: "?b < length gs" "t \<le> gs ! ?b" by simp_all
  from a have al: "gs ! ?a < t + w" by simp
  from far bl have lt: "?a + c < length gs" by simp
  have "gs ! ?b \<le> gs ! (?a + c)"
  proof (cases "?a + c = ?b")
    case True
    then show ?thesis by simp
  next
    case False
    with far have "?a + c < ?b" by simp
    with s bl(1) show ?thesis by (simp add: sorted_wrt_iff_nth_less)
  qed
  with bl(2) have "t \<le> gs ! (?a + c)" by simp
  moreover from sp [OF lt] al have "gs ! (?a + c) < t" by simp
  ultimately show False by simp
qed


text \<open>
  The caller resumes at the first moment, from its turn on, at which a token is
  available.
\<close>

lemma acquire_token:
  assumes s: "sorted_wrt (\<ge>) (grants l)" and a: "acquire now l = Some (t, l')"
  shows "0 < tokens l t"
    and "\<And>u. (case grants l of [] \<Rightarrow> now | g # _ \<Rightarrow> max now g) \<le> u \<Longrightarrow> u < t \<Longrightarrow> tokens l u \<le> 0"
proof -
  let ?c = "nat (capacity l)"
  let ?gs = "grants l"
  let ?t0 = "case grants l of [] \<Rightarrow> now | g # _ \<Rightarrow> max now g"
  from a have pos: "0 < capacity l"
    by (auto simp: acquire_def split: if_splits)
  from a pos have t: "t = (if ?c \<le> length ?gs
                 then max ?t0 (?gs ! (?c - 1) + window l) else ?t0)"
    by (auto simp: acquire_def Let_def)
  have mono: "?gs ! j \<le> ?gs ! i" if "i \<le> j" "j < length ?gs" for i j
  proof (cases "i = j")
    case False
    with that have "i < j" by simp
    with s that(2) show ?thesis by (simp add: sorted_wrt_iff_nth_less)
  qed simp
  let ?I = "{i. i < length ?gs \<and> t < ?gs ! i + window l}"
  have "card ?I < ?c"
  proof (cases "?c \<le> length ?gs")
    case True
    have "?I \<subseteq> {..<?c - 1}"
    proof
      fix i assume i: "i \<in> ?I"
      show "i \<in> {..<?c - 1}"
      proof (rule ccontr)
        assume "i \<notin> {..<?c - 1}"
        then have "?c - 1 \<le> i" by simp
        from mono [OF this] i have "?gs ! i \<le> ?gs ! (?c - 1)" by simp
        moreover from True have "?gs ! (?c - 1) + window l \<le> t" by (simp add: t)
        ultimately show False using i by simp
      qed
    qed
    then have "card ?I \<le> card {..<?c - 1}" by (intro card_mono) simp_all
    with pos show ?thesis by simp
  next
    case False
    have "?I \<subseteq> {..<length ?gs}" by auto
    then have "card ?I \<le> card {..<length ?gs}" by (intro card_mono) simp_all
    with False show ?thesis by simp
  qed
  with pos show "0 < tokens l t"
    by (simp add: tokens_def length_filter_conv_card)
  fix u assume u: "?t0 \<le> u" "u < t"
  then have le: "?c \<le> length ?gs" and tu: "u < ?gs ! (?c - 1) + window l"
    by (auto simp: t split: if_splits)
  let ?J = "{i. i < length ?gs \<and> u < ?gs ! i + window l}"
  have "{..<?c} \<subseteq> ?J"
  proof
    fix i assume "i \<in> {..<?c}"
    then have i: "i \<le> ?c - 1" "i < length ?gs" using le by simp_all
    from le pos have "?c - 1 < length ?gs" by simp
    from mono [OF i(1) this] tu i(2) show "i \<in> ?J" by simp
  qed
  then have "card {..<?c} \<le> card ?J" by (intro card_mono) simp_all
  with pos show "tokens l u \<le> 0"
    by (simp add: tokens_def length_filter_conv_card)
qed

lemma acquire_all_step:
  assumes "sorted_wrt (\<ge>) (grants l)"
    and "\<And>i. i + nat (capacity l) < length (grants l) \<Longrightarrow>
               grants l ! (i + nat (capacity l)) + window l \<le> grants l ! i"
    and "acquire_all nows l = Some (ts, l')"
  shows "grants l' = rev ts @ grants l \<and> capacity l' = capacity l \<and> window l' = window l \<and>
         sorted_wrt (\<ge>) (grants l') \<and>
         (\<forall>i. i + nat (capacity l') < length (grants l') \<longrightarrow>
               grants l' ! (i + nat (capacity l')) + window l' \<le> grants l' ! i) \<and>
         length ts = length nows \<and> list_all2 (\<le>) nows ts"
  using assms
proof (induction nows arbitrary: l ts)
  case Nil
  then show ?case by simp
next
  case (Cons now nows)
  from Cons.prems(3) obtain t l1 us where
    a: "acquire now l = Some (t, l1)" and r: "acquire_all nows l1 = Some (us, l')"
    and ts: "ts = t # us"
    by (auto split: option.splits)
  note st = acquire_step [OF Cons.prems(1,2) a]
  from Cons.IH [OF st(3,4) r]
  have ih: "grants l' = rev us @ grants l1" "capacity l' = capacity l1" "window l' = window l1"
    "sorted_wrt (\<ge>) (grants l')"
    "\<forall>i. i + nat (capacity l') < length (grants l') \<longrightarrow>
               grants l' ! (i + nat (capacity l')) + window l' \<le> grants l' ! i"
    "length us = length nows" "list_all2 (\<le>) nows us"
    by blast+
  from st(1) have l1: "grants l1 = t # grants l" "capacity l1 = capacity l" "window l1 = window l"
    by simp_all
  show ?case
    using ih(4,5,6,7) st(2) by (simp add: ts ih(1,2,3) l1)
qed

lemma acquire_all_returns:
  "0 < capacity l \<Longrightarrow> \<exists>ts l'. acquire_all nows l = Some (ts, l')"
proof (induction nows arbitrary: l)
  case Nil
  then show ?case by simp
next
  case (Cons now nows)
  from acquire_Some [OF Cons.prems, of now] obtain t gs where
    a: "acquire now l = Some (t, l\<lparr>grants := gs\<rparr>)" by blast
  from Cons.prems have "0 < capacity (l\<lparr>grants := gs\<rparr>)" by simp
  from Cons.IH [OF this] a show ?case by auto
qed

lemma acquire_all_no_capacity:
  "capacity l \<le> 0 \<Longrightarrow> acquire_all nows l = Some (ts, l') \<Longrightarrow> ts = []"
  by (cases nows) (auto simp: acquire_def)

text \<open>
  C5. The client's rate limiter is constructed with the capacity \<^verbatim>\<open>API_RATE_LIMIT\<close> and a
  window of 60. For every sequence of calls of \<^verbatim>\<open>acquire()\<close>, whatever their arrival
  times, no window of 60 seconds holds more completed acquisitions than the capacity. With
  a positive capacity every call returns, at or after its arrival and in the order of
  arrival: \<^verbatim>\<open>acquire()\<close> only delays. (With no capacity no call ever returns.)
\<close>

theorem rate_limiter_window_bound:
  "rate_limiter (init c t0) = RateLimiter (API_RATE_LIMIT c) 60 \<and>
   (\<forall>ts l. acquire_all arrivals (rate_limiter (init c t0)) = Some (ts, l) \<longrightarrow>
      (\<forall>t. length (completed_in t 60 ts) \<le> nat (API_RATE_LIMIT c))) \<and>
   (0 < API_RATE_LIMIT c \<longrightarrow>
      (\<exists>ts l. acquire_all arrivals (rate_limiter (init c t0)) = Some (ts, l) \<and>
         length ts = length arrivals \<and> list_all2 (\<le>) arrivals ts \<and> sorted ts))"
proof (intro conjI allI impI)
  let ?l0 = "RateLimiter (API_RATE_LIMIT c) 60"
  show l0: "rate_limiter (init c t0) = ?l0" by (simp add: init_def)
  have fresh: "grants ?l0 = []" "capacity ?l0 = API_RATE_LIMIT c" "window ?l0 = 60"
    by (simp_all add: RateLimiter_def)
  have s0: "sorted_wrt (\<ge>) (grants ?l0)" by (simp add: fresh)
  have sp0: "grants ?l0 ! (i + nat (capacity ?l0)) + window ?l0 \<le> grants ?l0 ! i"
    if "i + nat (capacity ?l0) < length (grants ?l0)" for i
    using that by (simp add: fresh)
  have run: "sorted_wrt (\<ge>) (rev ts)"
    "\<And>i. i + nat (API_RATE_LIMIT c) < length (rev ts) \<Longrightarrow>
               rev ts ! (i + nat (API_RATE_LIMIT c)) + 60 \<le> rev ts ! i"
    "length ts = length arrivals" "list_all2 (\<le>) arrivals ts"
    if a: "acquire_all arrivals ?l0 = Some (ts, l)" for ts l
  proof -
    from acquire_all_step [OF s0 sp0 a]
    have f: "grants l = rev ts @ grants ?l0" "capacity l = capacity ?l0" "window l = window ?l0"
      "sorted_wrt (\<ge>) (grants l)"
      "\<forall>i. i + nat (capacity l) < length (grants l) \<longrightarrow>
               grants l ! (i + nat (capacity l)) + window l \<le> grants l ! i"
      "length ts = length arrivals" "list_all2 (\<le>) arrivals ts"
      by blast+
    from f(1) have g: "grants l = rev ts" by (simp add: fresh)
    from f(4) show "sorted_wrt (\<ge>) (rev ts)" by (simp add: g)
    from f(5) show "rev ts ! (i + nat (API_RATE_LIMIT c)) + 60 \<le> rev ts ! i"
      if "i + nat (API_RATE_LIMIT c) < length (rev ts)" for i
      using that by (simp add: g f(2,3) fresh)
    show "length ts = length arrivals" "list_all2 (\<le>) arrivals ts" by (rule f(6), rule f(7))
  qed
  show "length (completed_in t 60 ts) \<le> nat (API_RATE_LIMIT c)"
    if a: "acquire_all arrivals (rate_limiter (init c t0)) = Some (ts, l)" for ts l t
  proof (cases "0 < API_RATE_LIMIT c")
    case True
    from a have a': "acquire_all arrivals ?l0 = Some (ts, l)" by (simp add: l0)
    note r = run(1,2) [OF a']
    from True have "0 < nat (API_RATE_LIMIT c)" by simp
    from window_bound [of "rev ts" "nat (API_RATE_LIMIT c)" 60 t, OF r this]
    have "length (filter (\<lambda>g. t \<le> g \<and> g < t + 60) (rev ts)) \<le> nat (API_RATE_LIMIT c)" .
    then have "length (rev (filter (\<lambda>g. t \<le> g \<and> g < t + 60) ts)) \<le> nat (API_RATE_LIMIT c)"
      by (simp only: rev_filter)
    then show ?thesis by (simp add: completed_in_def)
  next
    case False
    with a have "ts = []"
      using acquire_all_no_capacity [of ?l0 arrivals ts l] by (simp add: l0 fresh)
    then show ?thesis by (simp add: completed_in_def)
  qed
  assume pos: "0 < API_RATE_LIMIT c"
  then have "0 < capacity ?l0" by (simp add: fresh)
  from acquire_all_returns [OF this, of arrivals] obtain ts l where
    a: "acquire_all arrivals ?l0 = Some (ts, l)" by blast
  note run(1,3,4) [OF a]
  moreover from run(1) [OF a] have "sorted ts"
    by (simp add: sorted_wrt_rev)
  ultimately show "\<exists>ts l. acquire_all arrivals (rate_limiter (init c t0)) = Some (ts, l) \<and>
         length ts = length arrivals \<and> list_all2 (\<le>) arrivals ts \<and> sorted ts"
    using a by (auto simp: l0)
qed

theorem rate_limiter_window_bound_witness:
  "0 < API_RATE_LIMIT (demo_config\<lparr>API_RATE_LIMIT := 2\<rparr>) \<and>
   map_option fst
     (acquire_all [0, 0, 0, 5] (rate_limiter (init (demo_config\<lparr>API_RATE_LIMIT := 2\<rparr>) 0))) =
     Some [0, 0, 60, 60] \<and>
   length (completed_in 1 60 [0, 0, 60, 60]) \<le> 2"
proof -
  have p: "0 < API_RATE_LIMIT (demo_config\<lparr>API_RATE_LIMIT := 2\<rparr>)" by simp
  have a: "acquire_all [0, 0, 0, 5] (rate_limiter (init (demo_config\<lparr>API_RATE_LIMIT := 2\<rparr>) 0)) =
      Some ([0, 0, 60, 60], \<lparr>capacity = 2, window = 60, grants = [60, 60, 0, 0]\<rparr>)"
    by (simp add: init_def RateLimiter_def acquire_def Let_def)
  from rate_limiter_window_bound [of "demo_config\<lparr>API_RATE_LIMIT := 2\<rparr>" 0 "[0, 0, 0, 5]"] a
  have "length (completed_in 1 60 [0, 0, 60, 60]) \<le> nat (API_RATE_LIMIT (demo_config\<lparr>API_RATE_LIMIT := 2\<rparr>))"
    by blast
  with p a show ?thesis by simp
qed

end
